theory Spec2Isabelle
  imports Main "HOL-Library.AList" "HOL-Library.Sublist"
begin

section \<open>Data model of \<open>pyser\<close>\<close>

text \<open>
  The engine of \<open>src/pyser/__init__.py\<close>: a token catalog (\<open>TokenType\<close>), a lexer, a
  recursive-descent parser over a registry of mutable rule objects, and the start-rule
  selection of \<open>Interpreter.interpret\<close>.

  Text is a list of characters; a character stands for a code point below 256, and the
  character classes below are the ones Python's \<open>str.isspace\<close>, \<open>re\<close> (\<open>\s\<close>, \<open>\d\<close>,
  \<open>\w\<close> on \<open>str\<close> patterns) and \<open>str.lower\<close> have on that range.
\<close>

datatype error =
    KeyError string
  | ValueError string
  | TypeError

text \<open>
  The regular expression of a \<open>TokenDefinition\<close>: one of the four that \<open>add_auto_token\<close>
  stores, \<open>\d+(\.\d+)?\<close>, \<open>"[^"]*"\<close>, \<open>[A-Za-z_]\w*\<close> and \<open>\w+\<close>, or any other,
  given by its source text (\<open>TokenDefinition(name, pattern=...)\<close> takes any).
\<close>

datatype pattern =
    NUMBER_pattern
  | STRING_pattern
  | IDENTIFIER_pattern
  | WORD_pattern
  | Regex string

text \<open>
  \<open>class TokenDefinition\<close>: \<open>name\<close>, \<open>value\<close> (the literal, or \<open>None\<close>) and \<open>pattern\<close>
  (the regular expression, or \<open>None\<close>). \<open>__eq__\<close> compares \<open>name\<close> and \<open>value\<close> only.
\<close>

datatype TokenDefinition =
  TokenDefinition (def_name: string) (def_value: "string option") (def_pattern: "pattern option")

definition TokenDefinition_eq :: "TokenDefinition \<Rightarrow> TokenDefinition \<Rightarrow> bool" where
  "TokenDefinition_eq self other \<longleftrightarrow>
     def_name self = def_name other \<and> def_value self = def_value other"

text \<open>\<open>class Token\<close>: the kind, the matched text and the offset in the stripped input.\<close>

datatype Token = Token (tok_type: TokenDefinition) (tok_value: string) (tok_position: nat)

subsection \<open>Token catalog: \<open>class TokenType\<close>\<close>

text \<open>
  \<open>self.tokens\<close> is a Python dict: an association list with distinct keys in insertion
  order; assigning to a present key replaces the value in place, assigning to a new key
  appends (\<^const>\<open>AList.update\<close>).
\<close>

type_synonym TokenType = "(string \<times> TokenDefinition) list"

definition add_token :: "string \<Rightarrow> string \<Rightarrow> TokenType \<Rightarrow> TokenType" where
  "add_token nm literal tokens = AList.update nm (TokenDefinition nm (Some literal) None) tokens"

definition auto_pattern :: "string \<Rightarrow> pattern" where
  "auto_pattern nm =
     (if nm = ''NUMBER'' then NUMBER_pattern
      else if nm = ''STRING'' then STRING_pattern
      else if nm = ''IDENTIFIER'' then IDENTIFIER_pattern
      else WORD_pattern)"

definition add_auto_token :: "string \<Rightarrow> TokenType \<Rightarrow> TokenType" where
  "add_auto_token nm tokens =
     (if nm \<in> fst ` set tokens then tokens
      else AList.update nm (TokenDefinition nm None (Some (auto_pattern nm))) tokens)"

definition TokenType_getitem :: "TokenType \<Rightarrow> string \<Rightarrow> error + TokenDefinition" where
  "TokenType_getitem tokens key =
     (case map_of tokens key of None \<Rightarrow> Inl (KeyError key) | Some d \<Rightarrow> Inr d)"

section \<open>Lexer\<close>

subsection \<open>Character classes and the regular expressions\<close>

definition isspace :: "char \<Rightarrow> bool" where
  "isspace c \<longleftrightarrow> (of_char c :: nat) \<in> set [9, 10, 11, 12, 13, 28, 29, 30, 31, 32, 133, 160]"

definition isdigit :: "char \<Rightarrow> bool" where
  "isdigit c \<longleftrightarrow> 48 \<le> (of_char c :: nat) \<and> (of_char c :: nat) \<le> 57"

definition ascii_letter :: "char \<Rightarrow> bool" where
  "ascii_letter c \<longleftrightarrow>
     (65 \<le> (of_char c :: nat) \<and> (of_char c :: nat) \<le> 90) \<or>
     (97 \<le> (of_char c :: nat) \<and> (of_char c :: nat) \<le> 122)"

definition isword :: "char \<Rightarrow> bool" where
  "isword c \<longleftrightarrow>
     (let n = (of_char c :: nat) in
        isdigit c \<or> ascii_letter c \<or> n = 95 \<or>
        n \<in> set [170, 178, 179, 181, 185, 186, 188, 189, 190] \<or>
        (192 \<le> n \<and> n \<le> 214) \<or> (216 \<le> n \<and> n \<le> 246) \<or> 248 \<le> n)"

text \<open>\<open>str.strip()\<close>: leading and trailing whitespace removed.\<close>

definition strip :: "string \<Rightarrow> string" where
  "strip s = rev (dropWhile isspace (rev (dropWhile isspace s)))"

text \<open>
  \<open>re.match(pattern, s)\<close>: \<open>m.group(0)\<close> when there is a match, \<open>None\<close> otherwise. For
  the four patterns of \<open>add_auto_token\<close> it is written out: every quantifier is greedy, and
  none of them needs backtracking into an earlier part to succeed. For any other regular
  expression that the library compiles it is what the library gives, a parameter of the
  model: \<open>engine src s\<close> is the text matched by the expression with source \<open>src\<close> at
  the start of \<open>s\<close>, if it matches. A match may be empty.
\<close>

type_synonym regex_engine = "string \<Rightarrow> string \<Rightarrow> string option"

fun re_match :: "regex_engine \<Rightarrow> pattern \<Rightarrow> string \<Rightarrow> string option" where
  "re_match engine NUMBER_pattern s =
     (let ds = takeWhile isdigit s in
        if ds = [] then None
        else (case drop (length ds) s of
                [] \<Rightarrow> Some ds
              | c # rest \<Rightarrow>
                  if c = CHR ''.'' \<and> takeWhile isdigit rest \<noteq> []
                  then Some (ds @ c # takeWhile isdigit rest)
                  else Some ds))"
| "re_match engine STRING_pattern s =
     (case s of
        [] \<Rightarrow> None
      | c # rest \<Rightarrow>
          if c = CHR 0x22 then
            (let body = takeWhile (\<lambda>x. x \<noteq> CHR 0x22) rest in
               if length body < length rest then Some (c # body @ [CHR 0x22]) else None)
          else None)"
| "re_match engine IDENTIFIER_pattern s =
     (case s of
        [] \<Rightarrow> None
      | c # rest \<Rightarrow>
          if ascii_letter c \<or> c = CHR ''_'' then Some (c # takeWhile isword rest) else None)"
| "re_match engine WORD_pattern s =
     (let w = takeWhile isword s in if w = [] then None else Some w)"
| "re_match engine (Regex src) s = engine src s"

text \<open>The decimal numeral an f-string prints for a position.\<close>

fun str_nat :: "nat \<Rightarrow> string" where
  "str_nat n =
     (if n < 10 then [''0123456789'' ! n]
      else str_nat (n div 10) @ [''0123456789'' ! (n mod 10)])"

declare str_nat.simps [simp del]

definition unexpected_token :: "nat \<Rightarrow> string \<Rightarrow> error" where
  "unexpected_token position text =
     ValueError (''Unexpected token at position '' @ str_nat position @ '': '' @ drop position text)"

subsection \<open>\<open>Lexer.tokenize\<close>\<close>

text \<open>\<open>text.startswith(literal, position)\<close>.\<close>

definition startswith :: "string \<Rightarrow> string \<Rightarrow> nat \<Rightarrow> bool" where
  "startswith text literal position \<longleftrightarrow> take (length literal) (drop position text) = literal"

text \<open>
  The first \<open>for\<close> loop of the body: the first definition with a literal value that the
  text starts with at \<open>position\<close>.
\<close>

fun match_literal :: "TokenDefinition list \<Rightarrow> string \<Rightarrow> nat \<Rightarrow> (TokenDefinition \<times> string) option" where
  "match_literal [] text position = None"
| "match_literal (token_def # rest) text position =
     (case def_value token_def of
        Some literal \<Rightarrow>
          if startswith text literal position then Some (token_def, literal)
          else match_literal rest text position
      | None \<Rightarrow> match_literal rest text position)"

text \<open>
  The second \<open>for\<close> loop: the first definition without a literal value whose pattern
  matches at \<open>position\<close>; \<open>if m:\<close> holds for every match object, also for an empty
  match. \<open>re.match(None, ...)\<close> raises \<open>TypeError\<close>.
\<close>

fun match_auto ::
  "regex_engine \<Rightarrow> TokenDefinition list \<Rightarrow> string \<Rightarrow> nat \<Rightarrow> error + (TokenDefinition \<times> string) option" where
  "match_auto engine [] text position = Inr None"
| "match_auto engine (token_def # rest) text position =
     (case def_value token_def of
        Some literal \<Rightarrow> match_auto engine rest text position
      | None \<Rightarrow>
          (case def_pattern token_def of
             None \<Rightarrow> Inl TypeError
           | Some p \<Rightarrow>
               (case re_match engine p (drop position text) of
                  Some v \<Rightarrow> Inr (Some (token_def, v))
                | None \<Rightarrow> match_auto engine rest text position)))"

text \<open>\<open>ws = re.match(r'\s+', text[position:]); if ws: position += ws.end()\<close>.\<close>

definition skip_whitespace :: "string \<Rightarrow> nat \<Rightarrow> nat" where
  "skip_whitespace text position = position + length (takeWhile isspace (drop position text))"

text \<open>
  The \<open>while\<close> loop. It need not end (an empty literal is a prefix everywhere, a pattern
  may match the empty text, and either moves the position by nothing), so every iteration
  takes one unit of fuel, and \<open>None\<close> says that the fuel ran out.
\<close>

fun tokenize_loop ::
  "regex_engine \<Rightarrow> nat \<Rightarrow> TokenDefinition list \<Rightarrow> string \<Rightarrow> nat \<Rightarrow> Token list \<Rightarrow>
     (error + Token list) option" where
  "tokenize_loop engine 0 token_defs text position tokens =
     (if position < length text then None else Some (Inr tokens))"
| "tokenize_loop engine (Suc fuel) token_defs text position tokens =
     (if position < length text then
        (let position = skip_whitespace text position in
           if position \<ge> length text then Some (Inr tokens)
           else
             (case match_literal token_defs text position of
                Some (token_def, literal) \<Rightarrow>
                  tokenize_loop engine fuel token_defs text (position + length literal)
                    (tokens @ [Token token_def literal position])
              | None \<Rightarrow>
                  (case match_auto engine token_defs text position of
                     Inl e \<Rightarrow> Some (Inl e)
                   | Inr (Some (token_def, v)) \<Rightarrow>
                       tokenize_loop engine fuel token_defs text (position + length v)
                         (tokens @ [Token token_def v position])
                   | Inr None \<Rightarrow> Some (Inl (unexpected_token position text)))))
      else Some (Inr tokens))"

definition tokenize ::
  "regex_engine \<Rightarrow> nat \<Rightarrow> TokenDefinition list \<Rightarrow> string \<Rightarrow> (error + Token list) option" where
  "tokenize engine fuel token_defs text = tokenize_loop engine fuel token_defs (strip text) 0 []"

section \<open>Parser\<close>

subsection \<open>Rules, alternatives and parse nodes\<close>

text \<open>
  Rule objects are mutable and refer to each other, also in cycles, so they live in a
  store: a handle is the identity of a \<open>ParsingRule\<close> object, and an alternative that is a
  rule holds the handle. An alternative is a \<open>TokenDefinition\<close>, a \<open>ParsingRule\<close>, a
  \<open>dict\<close> (an inline rule definition) or anything else.
\<close>

type_synonym handle = nat

datatype element =
    ETok TokenDefinition
  | ERule handle
  | EDict "(string \<times> element list) list"
  | EOther

text \<open>
  A rule definition is a Python dict from slot names to lists of alternatives: an
  association list in insertion order, whose keys are distinct.
\<close>

type_synonym rule_definition = "(string \<times> element list) list"

text \<open>
  \<open>class ParsingRule\<close>: \<open>name\<close>, \<open>definition\<close>, and the attributes \<open>update_definition\<close>
  adds with \<open>setattr\<close>, one for every slot of the definition. No code of the parser reads
  these attributes. The model covers slot names that are not themselves attributes of the
  object (\<open>slot_name_ok\<close> below); for the others \<open>setattr\<close> would replace \<open>name\<close> or
  \<open>definition\<close> by a list of alternatives, or raise.
\<close>

record ParsingRule =
  name :: string
  definition_of :: rule_definition
  attrs :: "(string \<times> element list) list"

definition new_ParsingRule :: "string \<Rightarrow> ParsingRule" where
  "new_ParsingRule nm = \<lparr>name = nm, definition_of = [], attrs = []\<rparr>"

definition update_definition :: "ParsingRule \<Rightarrow> rule_definition \<Rightarrow> ParsingRule" where
  "update_definition self d =
     self\<lparr>definition_of := d,
          attrs := fold (\<lambda>(key, v) a. AList.update key v a) d (attrs self)\<rparr>"

definition slot_name_ok :: "string \<Rightarrow> bool" where
  "slot_name_ok key \<longleftrightarrow>
     key \<notin> set [''name'', ''definition'', ''type'', ''update_definition''] \<and> take 2 key \<noteq> ''__''"

definition plain_slots :: "rule_definition \<Rightarrow> bool" where
  "plain_slots d \<longleftrightarrow> list_all (\<lambda>(key, alts). slot_name_ok key) d"

text \<open>
  A parse node is a Python dict: \<open>{"type": ..., "value": ...}\<close> for a token,
  \<open>{"type": rule.name, slot: node, ..., "optional": [node, ...]}\<close> for a rule.
\<close>

datatype pval = VStr string | VDict "(string \<times> pval) list" | VList "pval list"

type_synonym node = "(string \<times> pval) list"

type_synonym heap = "handle \<Rightarrow> ParsingRule"

subsection \<open>\<open>Parser._parse_rule\<close> and \<open>Parser._parse_element\<close>\<close>

text \<open>
  The matcher returns \<open>(node, position)\<close>, with \<open>None\<close> for the node when there is no
  match. It need not return: a rule that reaches itself before consuming a token recurses
  without end, and the \<open>while True\<close> loop of the optional slot runs forever once an
  alternative matches without consuming a token. Every call of \<open>_parse_rule\<close> and every
  iteration of the \<open>while\<close> loop takes one unit of fuel; the outer \<open>None\<close> says that the
  fuel ran out.

  \<^item> \<open>parse_rule\<close> is \<open>_parse_rule\<close>;
  \<^item> \<open>parse_parts\<close> is its \<open>for part in ...\<close> loop over the items of the definition whose
    key is not \<open>"optional"\<close>, with \<open>return None, start_pos\<close> when a part has no match;
  \<^item> \<open>parse_alternatives\<close> is the inner \<open>for alt in alternatives\<close> loop (and the
    \<open>for opt in rule.definition["optional"]\<close> loop, which has the same body): the first
    alternative with a result, or \<open>None\<close> and the position unchanged;
  \<^item> \<open>parse_optional\<close> is the \<open>while True\<close> loop;
  \<^item> \<open>parse_element\<close> is \<open>_parse_element\<close>.
\<close>

function (sequential)
  parse_rule :: "nat \<Rightarrow> heap \<Rightarrow> ParsingRule \<Rightarrow> Token list \<Rightarrow> nat \<Rightarrow> (pval option \<times> nat) option"
and parse_parts ::
  "nat \<Rightarrow> heap \<Rightarrow> rule_definition \<Rightarrow> Token list \<Rightarrow> nat \<Rightarrow> node \<Rightarrow> nat \<Rightarrow> (node option \<times> nat) option"
and parse_alternatives ::
  "nat \<Rightarrow> heap \<Rightarrow> element list \<Rightarrow> Token list \<Rightarrow> nat \<Rightarrow> (pval option \<times> nat) option"
and parse_optional ::
  "nat \<Rightarrow> heap \<Rightarrow> element list \<Rightarrow> Token list \<Rightarrow> pval list \<Rightarrow> nat \<Rightarrow> (pval list \<times> nat) option"
and parse_element ::
  "nat \<Rightarrow> heap \<Rightarrow> element \<Rightarrow> Token list \<Rightarrow> nat \<Rightarrow> (pval option \<times> nat) option"
where
  "parse_rule 0 h rule tokens pos = None"
| "parse_rule (Suc n) h rule tokens pos =
     (case parse_parts n h (filter (\<lambda>(key, alts). key \<noteq> ''optional'') (definition_of rule)) tokens
             pos [(''type'', VStr (name rule))] pos of
        None \<Rightarrow> None
      | Some (None, start_pos) \<Rightarrow> Some (None, start_pos)
      | Some (Some node, pos') \<Rightarrow>
          (case map_of (definition_of rule) ''optional'' of
             None \<Rightarrow> Some (Some (VDict node), pos')
           | Some opts \<Rightarrow>
               (case parse_optional n h opts tokens [] pos' of
                  None \<Rightarrow> None
                | Some (opt_results, pos'') \<Rightarrow>
                    Some (Some (VDict (if opt_results \<noteq> []
                                       then AList.update ''optional'' (VList opt_results) node
                                       else node)), pos''))))"
| "parse_parts n h [] tokens start_pos node pos = Some (Some node, pos)"
| "parse_parts n h ((part, alternatives) # rest) tokens start_pos node pos =
     (case parse_alternatives n h alternatives tokens pos of
        None \<Rightarrow> None
      | Some (None, _) \<Rightarrow> Some (None, start_pos)
      | Some (Some parsed, pos') \<Rightarrow>
          parse_parts n h rest tokens start_pos (AList.update part parsed node) pos')"
| "parse_alternatives n h [] tokens pos = Some (None, pos)"
| "parse_alternatives n h (alt # alts) tokens pos =
     (case parse_element n h alt tokens pos of
        None \<Rightarrow> None
      | Some (None, _) \<Rightarrow> parse_alternatives n h alts tokens pos
      | Some (Some res, new_pos) \<Rightarrow> Some (Some res, new_pos))"
| "parse_optional 0 h opts tokens opt_results pos = None"
| "parse_optional (Suc n) h opts tokens opt_results pos =
     (case parse_alternatives n h opts tokens pos of
        None \<Rightarrow> None
      | Some (None, _) \<Rightarrow> Some (opt_results, pos)
      | Some (Some res, new_pos) \<Rightarrow> parse_optional n h opts tokens (opt_results @ [res]) new_pos)"
| "parse_element n h (ETok element) tokens pos =
     (if pos < length tokens \<and> TokenDefinition_eq (tok_type (tokens ! pos)) element
      then Some (Some (VDict [(''type'', VStr (def_name (tok_type (tokens ! pos)))),
                              (''value'', VStr (tok_value (tokens ! pos)))]), pos + 1)
      else Some (None, pos))"
| "parse_element n h (ERule r) tokens pos = parse_rule n h (h r) tokens pos"
| "parse_element n h (EDict d) tokens pos =
     parse_rule n h (update_definition (new_ParsingRule ''temp'') d) tokens pos"
| "parse_element n h EOther tokens pos = Some (None, pos)"
  by pat_completeness auto

termination
  by (relation "measures [
        (\<lambda>x. case x of
           Inl (Inl (n, _)) \<Rightarrow> 4 * n
         | Inl (Inr (n, _)) \<Rightarrow> 4 * n + 3
         | Inr (Inl (n, _)) \<Rightarrow> 4 * n + 2
         | Inr (Inr (Inl (n, _))) \<Rightarrow> 4 * n
         | Inr (Inr (Inr (n, _))) \<Rightarrow> 4 * n + 1),
        (\<lambda>x. case x of
           Inl (Inl (n, _)) \<Rightarrow> 0
         | Inl (Inr (n, _, parts, _)) \<Rightarrow> length parts
         | Inr (Inl (n, _, alts, _)) \<Rightarrow> length alts
         | Inr (Inr (Inl (n, _))) \<Rightarrow> 0
         | Inr (Inr (Inr (n, _))) \<Rightarrow> 0)]") auto

subsection \<open>\<open>class Parser\<close>: the registry\<close>

text \<open>
  \<open>self.rules\<close> maps a name to a rule object. \<open>objects\<close> is the store of rule objects and
  \<open>fresh\<close> the next unused handle: creating a \<open>ParsingRule\<close> takes it.
\<close>

record Parser =
  rules :: "string \<rightharpoonup> handle"
  objects :: heap
  fresh :: handle

definition Parser_init :: Parser where
  "Parser_init = \<lparr>rules = Map.empty, objects = (\<lambda>_. new_ParsingRule []), fresh = 0\<rparr>"

definition new_parsing_rule :: "string \<Rightarrow> Parser \<Rightarrow> Parser" where
  "new_parsing_rule nm self =
     self\<lparr>rules := (rules self)(nm \<mapsto> fresh self),
          objects := (objects self)(fresh self := new_ParsingRule nm),
          fresh := Suc (fresh self)\<rparr>"

definition Parser_getitem :: "Parser \<Rightarrow> string \<Rightarrow> error + handle" where
  "Parser_getitem self key =
     (case rules self key of None \<Rightarrow> Inl (KeyError key) | Some r \<Rightarrow> Inr r)"

definition Parser_setitem :: "string \<Rightarrow> rule_definition \<Rightarrow> Parser \<Rightarrow> Parser" where
  "Parser_setitem key v self =
     (case rules self key of
        Some r \<Rightarrow> self\<lparr>objects := (objects self)(r := update_definition (objects self r) v)\<rparr>
      | None \<Rightarrow>
          self\<lparr>rules := (rules self)(key \<mapsto> fresh self),
               objects := (objects self)(fresh self := update_definition (new_ParsingRule key) v),
               fresh := Suc (fresh self)\<rparr>)"

definition parse :: "nat \<Rightarrow> Parser \<Rightarrow> Token list \<Rightarrow> string \<Rightarrow> (error + pval) option" where
  "parse fuel self tokens start_rule_name =
     (case rules self start_rule_name of
        None \<Rightarrow> Some (Inl (KeyError start_rule_name))
      | Some r \<Rightarrow>
          (case parse_rule fuel (objects self) (objects self r) tokens 0 of
             None \<Rightarrow> None
           | Some (None, pos) \<Rightarrow> Some (Inl (ValueError ''Parsing failed''))
           | Some (Some result, pos) \<Rightarrow>
               if pos \<noteq> length tokens then Some (Inl (ValueError ''Parsing failed''))
               else Some (Inr result)))"

text \<open>Every registered rule object was created before \<open>fresh\<close>.\<close>

definition registry_ok :: "Parser \<Rightarrow> bool" where
  "registry_ok self \<longleftrightarrow> (\<forall>r \<in> ran (rules self). r < fresh self)"

section \<open>Interpreter: the start rule of \<open>interpret\<close> on text\<close>

definition lower_char :: "char \<Rightarrow> char" where
  "lower_char c =
     (let n = (of_char c :: nat) in
        if (65 \<le> n \<and> n \<le> 90) \<or> (192 \<le> n \<and> n \<le> 214) \<or> (216 \<le> n \<and> n \<le> 222)
        then char_of (n + 32) else c)"

definition lower :: "string \<Rightarrow> string" where
  "lower s = map lower_char s"

text \<open>
  The \<open>if "program" in self.parser.rules: ... else: ...\<close> block of \<open>interpret\<close>;
  \<open>key in self.parser.rules\<close> is \<open>parser_rules key \<noteq> None\<close>.
\<close>

definition select_start_rule :: "(string \<rightharpoonup> handle) \<Rightarrow> Token list \<Rightarrow> string" where
  "select_start_rule parser_rules tokens =
     (if parser_rules ''program'' \<noteq> None then ''program''
      else
        (let candidate = (case tokens of [] \<Rightarrow> ''math'' | t # _ \<Rightarrow> def_name (tok_type t)) in
           if parser_rules candidate \<noteq> None then candidate
           else if parser_rules (lower candidate) \<noteq> None then lower candidate
           else if candidate = ''LPAREN'' \<and> parser_rules ''paren_math'' \<noteq> None then ''paren_math''
           else ''math''))"

text \<open>
  \<open>interpret\<close> on a string, up to the parse tree: the lexer and the parser must be set, the
  text is tokenized and parsed from the selected start rule. The dispatch to the
  interpreting rule, which executes code held in a string, is not modelled.
\<close>

record Interpreter =
  lexer :: "TokenDefinition list option"
  parser :: "Parser option"

definition interpret_text ::
  "regex_engine \<Rightarrow> nat \<Rightarrow> Interpreter \<Rightarrow> string \<Rightarrow> (error + pval) option" where
  "interpret_text engine fuel self input_data =
     (case (lexer self, parser self) of
        (Some lx, Some ps) \<Rightarrow>
          (case tokenize engine fuel lx input_data of
             None \<Rightarrow> None
           | Some (Inl e) \<Rightarrow> Some (Inl e)
           | Some (Inr tokens) \<Rightarrow> parse fuel ps tokens (select_start_rule (rules ps) tokens))
      | _ \<Rightarrow> Some (Inl (ValueError ''Lexer and Parser must be set before interpretation'')))"

section \<open>The specification's descriptions, for comparison with the code\<close>

subsection \<open>The optional phase of a rule\<close>

text \<open>
  The specification's words for the optional slot: repeat --- try each optional
  alternative in order at the current position; on first success append the result to an
  accumulated list and advance the position; stop when no alternative matches.
  \<open>try\<close> is the matcher of one alternative at one position.
\<close>

definition no_match :: "(pval option \<times> nat) option \<Rightarrow> bool" where
  "no_match x = (case x of Some (None, _) \<Rightarrow> True | _ \<Rightarrow> False)"

definition first_success ::
  "(element \<Rightarrow> nat \<Rightarrow> (pval option \<times> nat) option) \<Rightarrow> element list \<Rightarrow> nat \<Rightarrow> (pval \<times> nat) option" where
  "first_success try opts pos =
     (case dropWhile (\<lambda>opt. no_match (try opt pos)) opts of
        [] \<Rightarrow> None
      | opt # _ \<Rightarrow> (case try opt pos of Some (Some res, new_pos) \<Rightarrow> Some (res, new_pos) | _ \<Rightarrow> None))"

text \<open>
  \<open>optional_repeat try opts pos results final\<close>: starting at \<open>pos\<close>, the rounds append
  exactly \<open>results\<close>, one per round, each the first success of its round, and the round at
  \<open>final\<close> is the first one in which no alternative matches.
\<close>

primrec optional_repeat ::
  "(element \<Rightarrow> nat \<Rightarrow> (pval option \<times> nat) option) \<Rightarrow> element list \<Rightarrow> nat \<Rightarrow> pval list \<Rightarrow> nat \<Rightarrow> bool" where
  "optional_repeat try opts pos [] final \<longleftrightarrow>
     list_all (\<lambda>opt. no_match (try opt pos)) opts \<and> final = pos"
| "optional_repeat try opts pos (res # results) final \<longleftrightarrow>
     (case first_success try opts pos of
        None \<Rightarrow> False
      | Some (res', new_pos) \<Rightarrow> res' = res \<and> optional_repeat try opts new_pos results final)"

subsection \<open>The lexing algorithm\<close>

text \<open>
  The specification's words: trim the input; repeat --- skip a run of whitespace; scan
  the literal kinds in registration order, the first whose literal value is a prefix at
  the current position wins; if none matched, scan the pattern kinds in registration
  order, the first whose pattern matches a non-empty prefix wins; if none, fail with
  \<open>LexError(offset, remainder)\<close>; continue until the input is exhausted. A kind has
  exactly one of a literal and a pattern.

  The algorithm is written once, with a flag for the one point where the code differs:
  with \<open>nonempty_only\<close> a pattern wins only by a non-empty match (the specification);
  without it, by any match (the code's \<open>if m:\<close>).
\<close>

datatype lex_error = LexError nat string

definition literal_kinds :: "TokenDefinition list \<Rightarrow> (TokenDefinition \<times> string) list" where
  "literal_kinds token_defs = List.map_filter (\<lambda>d. map_option (Pair d) (def_value d)) token_defs"

definition pattern_kinds :: "TokenDefinition list \<Rightarrow> (TokenDefinition \<times> pattern) list" where
  "pattern_kinds token_defs =
     List.map_filter (\<lambda>d. if def_value d = None then map_option (Pair d) (def_pattern d) else None)
       token_defs"

definition spec_first_literal :: "TokenDefinition list \<Rightarrow> string \<Rightarrow> (TokenDefinition \<times> string) option" where
  "spec_first_literal token_defs rest = find (\<lambda>(d, literal). prefix literal rest) (literal_kinds token_defs)"

definition pattern_wins :: "bool \<Rightarrow> regex_engine \<Rightarrow> pattern \<Rightarrow> string \<Rightarrow> bool" where
  "pattern_wins nonempty_only engine p rest =
     (case re_match engine p rest of
        Some v \<Rightarrow> (if nonempty_only then v \<noteq> [] else True)
      | None \<Rightarrow> False)"

definition first_pattern ::
  "bool \<Rightarrow> regex_engine \<Rightarrow> TokenDefinition list \<Rightarrow> string \<Rightarrow> (TokenDefinition \<times> string) option" where
  "first_pattern nonempty_only engine token_defs rest =
     (case find (\<lambda>(d, p). pattern_wins nonempty_only engine p rest) (pattern_kinds token_defs) of
        None \<Rightarrow> None
      | Some (d, p) \<Rightarrow> map_option (Pair d) (re_match engine p rest))"

fun lex_rounds ::
  "bool \<Rightarrow> regex_engine \<Rightarrow> nat \<Rightarrow> TokenDefinition list \<Rightarrow> string \<Rightarrow> nat \<Rightarrow>
     (lex_error + Token list) option" where
  "lex_rounds nonempty_only engine 0 token_defs text offset =
     (if offset < length text then None else Some (Inr []))"
| "lex_rounds nonempty_only engine (Suc fuel) token_defs text offset =
     (if length text \<le> offset then Some (Inr [])
      else
        (let offset' = offset + length (takeWhile isspace (drop offset text));
             rest = drop offset' text
         in if rest = [] then Some (Inr [])
            else
              (case (case spec_first_literal token_defs rest of
                       Some m \<Rightarrow> Some m
                     | None \<Rightarrow> first_pattern nonempty_only engine token_defs rest) of
                 None \<Rightarrow> Some (Inl (LexError offset' rest))
               | Some (kind, matched) \<Rightarrow>
                   (case lex_rounds nonempty_only engine fuel token_defs text
                           (offset' + length matched) of
                      None \<Rightarrow> None
                    | Some (Inl e) \<Rightarrow> Some (Inl e)
                    | Some (Inr tokens) \<Rightarrow> Some (Inr (Token kind matched offset' # tokens))))))"

text \<open>The algorithm as the specification states it, and as the code has it.\<close>

definition spec_tokenize ::
  "regex_engine \<Rightarrow> nat \<Rightarrow> TokenDefinition list \<Rightarrow> string \<Rightarrow> (lex_error + Token list) option" where
  "spec_tokenize engine fuel token_defs text = lex_rounds True engine fuel token_defs (strip text) 0"

definition any_match_tokenize ::
  "regex_engine \<Rightarrow> nat \<Rightarrow> TokenDefinition list \<Rightarrow> string \<Rightarrow> (lex_error + Token list) option" where
  "any_match_tokenize engine fuel token_defs text =
     lex_rounds False engine fuel token_defs (strip text) 0"

definition one_of_literal_or_pattern :: "TokenDefinition \<Rightarrow> bool" where
  "one_of_literal_or_pattern d \<longleftrightarrow> (def_value d = None) = (def_pattern d \<noteq> None)"

text \<open>No pattern of the list can match the empty text.\<close>

definition nonempty_matches :: "regex_engine \<Rightarrow> TokenDefinition list \<Rightarrow> bool" where
  "nonempty_matches engine token_defs \<longleftrightarrow>
     (\<forall>d \<in> set token_defs. \<forall>p s. def_pattern d = Some p \<longrightarrow> re_match engine p s \<noteq> Some [])"

text \<open>
  The \<open>ValueError\<close> the code raises for a lexing failure, and the offset read back from
  its message: the decimal numeral that follows \<open>Unexpected token at position\<close>.
\<close>

definition raised :: "lex_error \<Rightarrow> error" where
  "raised e =
     (case e of LexError offset remainder \<Rightarrow>
        ValueError (''Unexpected token at position '' @ str_nat offset @ '': '' @ remainder))"

definition decimal :: "string \<Rightarrow> nat" where
  "decimal ds = foldl (\<lambda>a c. 10 * a + (of_char c - 48)) 0 ds"

definition error_offset :: "error \<Rightarrow> nat option" where
  "error_offset e =
     (case e of
        ValueError msg \<Rightarrow>
          (let intro = ''Unexpected token at position '';
               ds = takeWhile isdigit (drop (length intro) msg)
           in if take (length intro) msg = intro \<and> ds \<noteq> [] then Some (decimal ds) else None)
      | _ \<Rightarrow> None)"

subsection \<open>Rounds of the optional phase that succeed\<close>

text \<open>
  \<open>optional_rounds try opts pos results final\<close>: starting at \<open>pos\<close>, each of the first
  rounds succeeds, with \<open>results\<close> in this order, and the next round starts at \<open>final\<close>.
\<close>

primrec optional_rounds ::
  "(element \<Rightarrow> nat \<Rightarrow> (pval option \<times> nat) option) \<Rightarrow> element list \<Rightarrow> nat \<Rightarrow> pval list \<Rightarrow> nat \<Rightarrow> bool" where
  "optional_rounds try opts pos [] final \<longleftrightarrow> final = pos"
| "optional_rounds try opts pos (res # results) final \<longleftrightarrow>
     (case first_success try opts pos of
        None \<Rightarrow> False
      | Some (res', new_pos) \<Rightarrow> res' = res \<and> optional_rounds try opts new_pos results final)"

section \<open>Small grammars used as concrete inputs\<close>

definition ex_NUMBER :: TokenDefinition where
  "ex_NUMBER = TokenDefinition ''NUMBER'' None (Some NUMBER_pattern)"

definition ex_PLUS :: TokenDefinition where
  "ex_PLUS = TokenDefinition ''PLUS'' (Some ''+'') None"

definition ex_heap :: heap where
  "ex_heap = (\<lambda>_. new_ParsingRule [])"

definition ex_pair_rule :: ParsingRule where
  "ex_pair_rule = \<lparr>name = ''pair'', definition_of = [(''a'', [ETok ex_NUMBER]), (''b'', [ETok ex_PLUS])], attrs = []\<rparr>"

definition ex_tokens_3_4 :: "Token list" where
  "ex_tokens_3_4 = [Token ex_NUMBER ''3'' 0, Token ex_NUMBER ''4'' 2]"

text \<open>The grammar \<open>src/main.py\<close> builds: its token kinds in the order given to the lexer.\<close>

definition main_tokentype :: TokenType where
  "main_tokentype =
     (add_token ''PRINT'' ''print'' \<circ> add_auto_token ''STRING'' \<circ> add_auto_token ''NUMBER'' \<circ>
      add_token ''RPAREN'' '')'' \<circ> add_token ''LPAREN'' ''('' \<circ> add_token ''DIVIDE'' ''/'' \<circ>
      add_token ''MULTIPLY'' ''*'' \<circ> add_token ''MINUS'' ''-'' \<circ> add_token ''PLUS'' ''+'') []"

definition tk_PLUS :: TokenDefinition where "tk_PLUS = TokenDefinition ''PLUS'' (Some ''+'') None"

definition tk_MINUS :: TokenDefinition where "tk_MINUS = TokenDefinition ''MINUS'' (Some ''-'') None"

definition tk_MULTIPLY :: TokenDefinition where
  "tk_MULTIPLY = TokenDefinition ''MULTIPLY'' (Some ''*'') None"

definition tk_DIVIDE :: TokenDefinition where "tk_DIVIDE = TokenDefinition ''DIVIDE'' (Some ''/'') None"

definition tk_LPAREN :: TokenDefinition where "tk_LPAREN = TokenDefinition ''LPAREN'' (Some ''('') None"

definition tk_RPAREN :: TokenDefinition where "tk_RPAREN = TokenDefinition ''RPAREN'' (Some '')'') None"

definition tk_NUMBER :: TokenDefinition where
  "tk_NUMBER = TokenDefinition ''NUMBER'' None (Some NUMBER_pattern)"

definition tk_STRING :: TokenDefinition where
  "tk_STRING = TokenDefinition ''STRING'' None (Some STRING_pattern)"

definition tk_PRINT :: TokenDefinition where "tk_PRINT = TokenDefinition ''PRINT'' (Some ''print'') None"

definition main_token_defs :: "TokenDefinition list" where
  "main_token_defs =
     [tk_PLUS, tk_MINUS, tk_MULTIPLY, tk_DIVIDE, tk_LPAREN, tk_RPAREN, tk_NUMBER, tk_STRING, tk_PRINT]"

text \<open>
  Its rules. \<open>new_parsing_rule\<close> is called for \<open>paren_math\<close>, \<open>math\<close>, \<open>math_continuer\<close> and
  \<open>print\<close>, which get the handles 0, 1, 2 and 3; \<open>parser["math_continuer"]\<close> in a definition
  is the handle 2.
\<close>

definition math_definition :: rule_definition where
  "math_definition =
     [(''a'', [ETok tk_NUMBER, ETok tk_STRING]),
      (''b'', [ETok tk_PLUS, ETok tk_MINUS, ETok tk_MULTIPLY, ETok tk_DIVIDE]),
      (''c'', [ETok tk_NUMBER, ETok tk_STRING]),
      (''optional'', [ERule 2])]"

definition math_continuer_definition :: rule_definition where
  "math_continuer_definition =
     [(''a'', [ETok tk_PLUS, ETok tk_MINUS, ETok tk_MULTIPLY, ETok tk_DIVIDE]),
      (''b'', [ETok tk_NUMBER, ETok tk_STRING, ERule 0]),
      (''optional'', [ERule 2])]"

definition paren_math_definition :: rule_definition where
  "paren_math_definition =
     [(''a'', [ETok tk_LPAREN]),
      (''b'', [ERule 1, ERule 0, ERule 2]),
      (''c'', [ETok tk_RPAREN]),
      (''optional'', [ERule 2])]"

definition print_definition :: rule_definition where
  "print_definition =
     [(''a'', [ETok tk_PRINT]),
      (''b'', [ETok tk_LPAREN]),
      (''c'', [ETok tk_STRING, ERule 1, ERule 0, ERule 2]),
      (''d'', [ETok tk_RPAREN])]"

definition main_parser :: Parser where
  "main_parser =
     (Parser_setitem ''print'' print_definition \<circ>
      Parser_setitem ''paren_math'' paren_math_definition \<circ>
      Parser_setitem ''math_continuer'' math_continuer_definition \<circ>
      Parser_setitem ''math'' math_definition \<circ>
      new_parsing_rule ''print'' \<circ> new_parsing_rule ''math_continuer'' \<circ>
      new_parsing_rule ''math'' \<circ> new_parsing_rule ''paren_math'') Parser_init"

definition main_interpreter :: Interpreter where
  "main_interpreter = \<lparr>lexer = Some main_token_defs, parser = Some main_parser\<rparr>"

text \<open>A rule whose optional slot holds the empty inline rule, which matches no token.\<close>

definition loop_definition :: rule_definition where
  "loop_definition = [(''a'', [ETok ex_NUMBER]), (''optional'', [EDict []])]"

definition loop_parser :: Parser where
  "loop_parser = Parser_setitem ''loop'' loop_definition Parser_init"

text \<open>A rule with a continuation in its optional slot, and the tokens of \<open>3 + 4 + 5\<close>.\<close>

definition ex_sum_rule :: ParsingRule where
  "ex_sum_rule =
     \<lparr>name = ''sum'',
      definition_of = [(''a'', [ETok ex_NUMBER]),
                       (''optional'', [EDict [(''a'', [ETok ex_PLUS]), (''b'', [ETok ex_NUMBER])]])],
      attrs = []\<rparr>"

definition ex_tokens_sum :: "Token list" where
  "ex_tokens_sum =
     [Token ex_NUMBER ''3'' 0, Token ex_PLUS ''+'' 2, Token ex_NUMBER ''4'' 4,
      Token ex_PLUS ''+'' 6, Token ex_NUMBER ''5'' 8]"

text \<open>Two literal kinds, the first a prefix of the second.\<close>

definition ex_print_defs :: "TokenDefinition list" where
  "ex_print_defs =
     [TokenDefinition ''PRINT'' (Some ''print'') None,
      TokenDefinition ''PRINTN'' (Some ''printn'') None]"

definition ex_sum_node :: node where
  "ex_sum_node =
     [(''type'', VStr ''sum''),
      (''a'', VDict [(''type'', VStr ''NUMBER''), (''value'', VStr ''3'')])]"

definition ex_sum_results :: "pval list" where
  "ex_sum_results =
     [VDict [(''type'', VStr ''temp''),
             (''a'', VDict [(''type'', VStr ''PLUS''), (''value'', VStr ''+'')]),
             (''b'', VDict [(''type'', VStr ''NUMBER''), (''value'', VStr ''4'')])],
      VDict [(''type'', VStr ''temp''),
             (''a'', VDict [(''type'', VStr ''PLUS''), (''value'', VStr ''+'')]),
             (''b'', VDict [(''type'', VStr ''NUMBER''), (''value'', VStr ''5'')])]]"

text \<open>The tokens of \<open>3 + 4 5\<close> under the kinds of \<open>src/main.py\<close>, and a one-slot definition.\<close>

definition ex_tokens_3_plus_4_5 :: "Token list" where
  "ex_tokens_3_plus_4_5 =
     [Token tk_NUMBER ''3'' 0, Token tk_PLUS ''+'' 2, Token tk_NUMBER ''4'' 4, Token tk_NUMBER ''5'' 6]"

definition ex_a_definition :: rule_definition where
  "ex_a_definition = [(''a'', [ETok ex_NUMBER])]"

text \<open>
  An engine for the one other regular expression of the examples, \<open>\d*\<close>, which matches
  the digits at the start of a text, and so matches every text.
\<close>

definition digits_star :: string where
  "digits_star = CHR 0x5C # ''d*''"

definition ex_engine :: regex_engine where
  "ex_engine src s = (if src = digits_star then Some (takeWhile isdigit s) else None)"

definition ex_star_defs :: "TokenDefinition list" where
  "ex_star_defs = [TokenDefinition ''DIGITS'' None (Some (Regex digits_star))]"

text \<open>The tokens of \<open>print("abc")\<close> and of \<open>(2 + 3) - 1\<close> under the kinds of \<open>src/main.py\<close>.\<close>

definition ex_tokens_print :: "Token list" where
  "ex_tokens_print =
     [Token tk_PRINT ''print'' 0, Token tk_LPAREN ''('' 5,
      Token tk_STRING (CHR 0x22 # ''abc'' @ [CHR 0x22]) 6, Token tk_RPAREN '')'' 11]"

definition ex_tokens_paren :: "Token list" where
  "ex_tokens_paren =
     [Token tk_LPAREN ''('' 0, Token tk_NUMBER ''2'' 1, Token tk_PLUS ''+'' 3,
      Token tk_NUMBER ''3'' 5, Token tk_RPAREN '')'' 6, Token tk_MINUS ''-'' 8,
      Token tk_NUMBER ''1'' 10]"

text \<open>A left-parenthesis kind under another name.\<close>

definition ex_LP :: TokenDefinition where
  "ex_LP = TokenDefinition ''LP'' (Some ''('') None"

text \<open>
  A rule whose optional slot holds a token and the empty inline rule: the first round
  can consume, a later one cannot.
\<close>

definition late_loop_definition :: rule_definition where
  "late_loop_definition = [(''a'', [ETok ex_NUMBER]), (''optional'', [ETok ex_PLUS, EDict []])]"

definition late_loop_parser :: Parser where
  "late_loop_parser = Parser_setitem ''loop'' late_loop_definition Parser_init"

definition ex_tokens_3_plus :: "Token list" where
  "ex_tokens_3_plus = [Token ex_NUMBER ''3'' 0, Token ex_PLUS ''+'' 2]"

section \<open>Verified properties\<close>

subsection \<open>The matcher: fuel, positions, slots\<close>

lemmas parse_induct = parse_rule_parse_parts_parse_alternatives_parse_optional_parse_element.induct

text \<open>More fuel never changes a result that less fuel has produced.\<close>

lemma fuel_mono:
  "parse_rule n h rule tokens pos = Some x \<Longrightarrow> n \<le> m \<Longrightarrow> parse_rule m h rule tokens pos = Some x"
  "parse_parts n h parts tokens start_pos node pos = Some y \<Longrightarrow> n \<le> m \<Longrightarrow>
     parse_parts m h parts tokens start_pos node pos = Some y"
  "parse_alternatives n h alts tokens pos = Some x \<Longrightarrow> n \<le> m \<Longrightarrow>
     parse_alternatives m h alts tokens pos = Some x"
  "parse_optional n h opts tokens acc pos = Some z \<Longrightarrow> n \<le> m \<Longrightarrow>
     parse_optional m h opts tokens acc pos = Some z"
  "parse_element n h e tokens pos = Some x \<Longrightarrow> n \<le> m \<Longrightarrow> parse_element m h e tokens pos = Some x"
proof (induction n h rule tokens pos and n h parts tokens start_pos node pos
         and n h alts tokens pos and n h opts tokens acc pos and n h e tokens pos
         arbitrary: x m and y m and x m and z m and x m
         rule: parse_induct)
  case (1 h rule tokens pos)
  then show ?case by simp
next
  case (2 n h rule tokens pos)
  from "2.prems" obtain m' where m: "m = Suc m'" "n \<le> m'" by (cases m) auto
  show ?case
  proof (cases "parse_parts n h (filter (\<lambda>(key, alts). key \<noteq> ''optional'') (definition_of rule)) tokens
             pos [(''type'', VStr (name rule))] pos")
    case None
    with "2.prems" show ?thesis by simp
  next
    case (Some y)
    note pp = "2.IH"(1)[OF Some m(2)]
    show ?thesis
    proof (cases y)
      case (Pair rn q)
      show ?thesis
      proof (cases rn)
        case None
        with Some Pair pp "2.prems" m show ?thesis by simp
      next
        case (Some nd)
        note rn = this
        show ?thesis
        proof (cases "map_of (definition_of rule) ''optional''")
          case None
          with \<open>parse_parts n h _ tokens pos _ pos = Some y\<close> Pair rn pp "2.prems" m show ?thesis by simp
        next
          case (Some opts)
          show ?thesis
          proof (cases "parse_optional n h opts tokens [] q")
            case None
            with \<open>parse_parts n h _ tokens pos _ pos = Some y\<close> Pair rn Some "2.prems" show ?thesis by simp
          next
            case (Some z)
            from "2.IH"(2)[OF \<open>parse_parts n h _ tokens pos _ pos = Some y\<close> Pair[symmetric] rn \<open>map_of _ _ = Some opts\<close> Some m(2)]
            have "parse_optional m' h opts tokens [] q = Some z" .
            with \<open>parse_parts n h _ tokens pos _ pos = Some y\<close> Pair rn \<open>map_of _ _ = Some opts\<close> Some pp "2.prems" m
            show ?thesis by simp
          qed
        qed
      qed
    qed
  qed
next
  case (3 n h tokens start_pos node pos)
  from "3.prems"(1) show ?case by simp
next
  case (4 n h part alternatives rest tokens start_pos node pos)
  show ?case
  proof (cases "parse_alternatives n h alternatives tokens pos")
    case None
    with "4.prems" show ?thesis by simp
  next
    case (Some x)
    note alt = "4.IH"(1)[OF Some "4.prems"(2)]
    obtain r q where x: "x = (r, q)" by (cases x)
    show ?thesis
    proof (cases r)
      case None
      with Some x alt "4.prems" show ?thesis by simp
    next
      case (Some parsed)
      from "4.prems"(1) \<open>parse_alternatives n h alternatives tokens pos = Some x\<close> x Some
      have "parse_parts n h rest tokens start_pos (AList.update part parsed node) q = Some y"
        by simp
      from "4.IH"(2)[OF \<open>parse_alternatives n h alternatives tokens pos = Some x\<close> x[symmetric] Some this "4.prems"(2)]
      show ?thesis using alt x Some by simp
    qed
  qed
next
  case (5 n h tokens pos)
  from "5.prems"(1) show ?case by simp
next
  case (6 n h alt alts tokens pos)
  show ?case
  proof (cases "parse_element n h alt tokens pos")
    case None
    with "6.prems" show ?thesis by simp
  next
    case (Some x')
    note el = "6.IH"(1)[OF Some "6.prems"(2)]
    obtain r q where x: "x' = (r, q)" by (cases x')
    show ?thesis
    proof (cases r)
      case None
      from "6.prems"(1) Some x None
      have "parse_alternatives n h alts tokens pos = Some x" by simp
      from "6.IH"(2)[OF Some x[symmetric] None this "6.prems"(2)]
      show ?thesis using el x None by simp
    next
      case (Some res)
      from "6.prems"(1) \<open>parse_element n h alt tokens pos = Some x'\<close> x Some
      have "x = (Some res, q)" by simp
      with el x Some show ?thesis by simp
    qed
  qed
next
  case (7 h opts tokens opt_results pos)
  then show ?case by simp
next
  case (8 n h opts tokens opt_results pos)
  from "8.prems" obtain m' where m: "m = Suc m'" "n \<le> m'" by (cases m) auto
  show ?case
  proof (cases "parse_alternatives n h opts tokens pos")
    case None
    with "8.prems" show ?thesis by simp
  next
    case (Some x)
    note alt = "8.IH"(1)[OF Some m(2)]
    obtain r q where x: "x = (r, q)" by (cases x)
    show ?thesis
    proof (cases r)
      case None
      with Some x alt "8.prems" m show ?thesis by simp
    next
      case (Some res)
      from "8.prems"(1) \<open>parse_alternatives n h opts tokens pos = Some x\<close> x Some
      have "parse_optional n h opts tokens (opt_results @ [res]) q = Some z" by simp
      from "8.IH"(2)[OF \<open>parse_alternatives n h opts tokens pos = Some x\<close> x[symmetric] Some this m(2)]
      show ?thesis using alt x Some m by simp
    qed
  qed
next
  case (9 n h element tokens pos)
  from "9.prems"(1) show ?case by simp
next
  case (10 n h r tokens pos)
  from "10.prems"(1) have "parse_rule n h (h r) tokens pos = Some x" by simp
  from "10.IH"[OF this "10.prems"(2)] show ?case by simp
next
  case (11 n h d tokens pos)
  from "11.prems"(1)
  have "parse_rule n h (update_definition (new_ParsingRule ''temp'') d) tokens pos = Some x"
    by simp
  from "11.IH"[OF this "11.prems"(2)] show ?case by simp
next
  case (12 n h tokens pos)
  from "12.prems"(1) show ?case by simp
qed

text \<open>
  Positions only move forward, stay within the tokens, and a failed match leaves the
  position where it was; proved for the five functions together.
\<close>

lemma position_invariant:
  "parse_rule n h rule tokens pos = Some (r, p') \<Longrightarrow> pos \<le> length tokens \<Longrightarrow>
     pos \<le> p' \<and> p' \<le> length tokens \<and> (r = None \<longrightarrow> p' = pos)"
  "parse_parts n h parts tokens start_pos node pos = Some (rn, p') \<Longrightarrow> pos \<le> length tokens \<Longrightarrow>
     (case rn of None \<Rightarrow> p' = start_pos | Some _ \<Rightarrow> pos \<le> p' \<and> p' \<le> length tokens)"
  "parse_alternatives n h alts tokens pos = Some (r, p') \<Longrightarrow> pos \<le> length tokens \<Longrightarrow>
     pos \<le> p' \<and> p' \<le> length tokens \<and> (r = None \<longrightarrow> p' = pos)"
  "parse_optional n h opts tokens acc pos = Some (rs, p') \<Longrightarrow> pos \<le> length tokens \<Longrightarrow>
     pos \<le> p' \<and> p' \<le> length tokens"
  "parse_element n h e tokens pos = Some (r, p') \<Longrightarrow> pos \<le> length tokens \<Longrightarrow>
     pos \<le> p' \<and> p' \<le> length tokens \<and> (r = None \<longrightarrow> p' = pos)"
proof (induction n h rule tokens pos and n h parts tokens start_pos node pos
         and n h alts tokens pos and n h opts tokens acc pos and n h e tokens pos
         arbitrary: r p' and rn p' and r p' and rs p' and r p'
         rule: parse_induct)
  case (1 h rule tokens pos)
  then show ?case by simp
next
  case (2 n h rule tokens pos)
  then show ?case
    by (fastforce split: option.splits prod.splits if_splits)
next
  case (3 n h tokens start_pos node pos)
  then show ?case by auto
next
  case (4 n h part alternatives rest tokens start_pos node pos)
  then show ?case
    by (fastforce split: option.splits prod.splits)
next
  case (5 n h tokens pos)
  then show ?case by auto
next
  case (6 n h alt alts tokens pos)
  then show ?case by (fastforce split: option.splits prod.splits)
next
  case (7 h opts tokens opt_results pos)
  then show ?case by simp
next
  case (8 n h opts tokens opt_results pos)
  then show ?case by (fastforce split: option.splits prod.splits)
next
  case (9 n h element tokens pos)
  then show ?case by (auto split: if_splits)
next
  case (10 n h r tokens pos)
  then show ?case by simp
next
  case (11 n h d tokens pos)
  then show ?case by simp
next
  case (12 n h tokens pos)
  then show ?case by auto
qed

lemma parse_parts_append:
  "parse_parts n h (xs @ ys) tokens start_pos node pos =
     (case parse_parts n h xs tokens start_pos node pos of
        None \<Rightarrow> None
      | Some (None, p) \<Rightarrow> Some (None, p)
      | Some (Some node', q) \<Rightarrow> parse_parts n h ys tokens start_pos node' q)"
proof (induction xs arbitrary: node pos)
  case Nil
  show ?case by simp
next
  case (Cons a xs)
  obtain part alternatives where a: "a = (part, alternatives)" by (cases a)
  show ?case
    by (simp add: a Cons.IH split: option.splits prod.splits)
qed

lemma parse_alternatives_all_fail:
  "\<forall>alt \<in> set alts. \<exists>p. parse_element n h alt tokens pos = Some (None, p) \<Longrightarrow>
     parse_alternatives n h alts tokens pos = Some (None, pos)"
  by (induction alts) auto

lemma parse_parts_keys:
  "parse_parts n h parts tokens start_pos node pos = Some (Some node', q) \<Longrightarrow>
     fst ` set node' \<subseteq> fst ` set node \<union> fst ` set parts"
proof (induction parts arbitrary: node pos)
  case Nil
  then show ?case by simp
next
  case (Cons a parts)
  obtain part alternatives where a: "a = (part, alternatives)" by (cases a)
  from Cons.prems a obtain parsed pos' where
    "parse_parts n h parts tokens start_pos (AList.update part parsed node) pos' = Some (Some node', q)"
    by (auto split: option.splits prod.splits)
  from Cons.IH[OF this] show ?case
    by (auto simp: a dom_update)
qed

text \<open>
  Claim C10. For every rule or element, token sequence and entry position \<open>pos\<close> with
  \<open>pos \<le> length tokens\<close>: a position \<open>p'\<close> returned by \<open>_parse_rule\<close> or by
  \<open>_parse_element\<close> satisfies \<open>pos \<le> p' \<le> length tokens\<close>, and when the match failed (the
  node is \<open>None\<close>) it is exactly \<open>pos\<close>.
\<close>

theorem matcher_position_invariant:
  assumes "pos \<le> length tokens"
  shows "(parse_rule n h rule tokens pos = Some (r, p') \<longrightarrow>
            pos \<le> p' \<and> p' \<le> length tokens \<and> (r = None \<longrightarrow> p' = pos)) \<and>
         (parse_element n h e tokens pos = Some (r', p'') \<longrightarrow>
            pos \<le> p'' \<and> p'' \<le> length tokens \<and> (r' = None \<longrightarrow> p'' = pos))"
  using assms position_invariant(1) position_invariant(5) by blast

theorem matcher_position_invariant_witness:
  "(0::nat) \<le> length ex_tokens_3_4 \<and>
   parse_rule 1 ex_heap ex_pair_rule ex_tokens_3_4 0 = Some (None, 0) \<and>
   parse_element 1 ex_heap (ETok ex_NUMBER) ex_tokens_3_4 0 =
     Some (Some (VDict [(''type'', VStr ''NUMBER''), (''value'', VStr ''3'')]), 1) \<and>
   (0::nat) \<le> 1 \<and> 1 \<le> length ex_tokens_3_4"
proof -
  have a: "(0::nat) \<le> length ex_tokens_3_4" by simp
  have b: "parse_rule 1 ex_heap ex_pair_rule ex_tokens_3_4 0 = Some (None, 0)" by code_simp
  have c: "parse_element 1 ex_heap (ETok ex_NUMBER) ex_tokens_3_4 0 =
     Some (Some (VDict [(''type'', VStr ''NUMBER''), (''value'', VStr ''3'')]), 1)" by code_simp
  from matcher_position_invariant[OF a, of 1 ex_heap ex_pair_rule None 0 "ETok ex_NUMBER"
      "Some (VDict [(''type'', VStr ''NUMBER''), (''value'', VStr ''3'')])" 1] a b c
  show ?thesis by simp
qed

text \<open>
  Claim C1. A rule whose mandatory slots are \<open>before\<close>, then \<open>part\<close>, then \<open>after\<close>: when
  the slots of \<open>before\<close> have matched from the entry position \<open>pos\<close> up to \<open>q\<close>, and no
  alternative of \<open>part\<close> matches at \<open>q\<close>, the rule fails and the position returned is the
  entry position \<open>pos\<close>: the tokens consumed by the earlier slots are given back.
\<close>

theorem mandatory_slot_failure_resets:
  assumes "filter (\<lambda>(key, alts). key \<noteq> ''optional'') (definition_of rule) =
             before @ (part, alternatives) # after"
    and "parse_parts n h before tokens pos [(''type'', VStr (name rule))] pos = Some (Some node, q)"
    and "\<forall>alt \<in> set alternatives. \<exists>p. parse_element n h alt tokens q = Some (None, p)"
  shows "parse_rule (Suc n) h rule tokens pos = Some (None, pos)"
proof -
  from assms(3) have "parse_alternatives n h alternatives tokens q = Some (None, q)"
    by (rule parse_alternatives_all_fail)
  then have "parse_parts n h ((part, alternatives) # after) tokens pos node q = Some (None, pos)"
    by simp
  with assms(2)
  have "parse_parts n h (before @ (part, alternatives) # after) tokens pos
          [(''type'', VStr (name rule))] pos = Some (None, pos)"
    by (simp add: parse_parts_append)
  with assms(1) show ?thesis by simp
qed

theorem mandatory_slot_failure_resets_witness:
  "filter (\<lambda>(key, alts). key \<noteq> ''optional'') (definition_of ex_pair_rule) =
     [(''a'', [ETok ex_NUMBER])] @ (''b'', [ETok ex_PLUS]) # [] \<and>
   parse_parts 0 ex_heap [(''a'', [ETok ex_NUMBER])] ex_tokens_3_4 0
       [(''type'', VStr (name ex_pair_rule))] 0 =
     Some (Some [(''type'', VStr ''pair''),
                 (''a'', VDict [(''type'', VStr ''NUMBER''), (''value'', VStr ''3'')])], 1) \<and>
   parse_element 0 ex_heap (ETok ex_PLUS) ex_tokens_3_4 1 = Some (None, 1) \<and>
   parse_rule (Suc 0) ex_heap ex_pair_rule ex_tokens_3_4 0 = Some (None, 0)"
proof -
  have a: "filter (\<lambda>(key, alts). key \<noteq> ''optional'') (definition_of ex_pair_rule) =
     [(''a'', [ETok ex_NUMBER])] @ (''b'', [ETok ex_PLUS]) # []"
    by (simp add: ex_pair_rule_def)
  have b: "parse_parts 0 ex_heap [(''a'', [ETok ex_NUMBER])] ex_tokens_3_4 0
       [(''type'', VStr (name ex_pair_rule))] 0 =
     Some (Some [(''type'', VStr ''pair''),
                 (''a'', VDict [(''type'', VStr ''NUMBER''), (''value'', VStr ''3'')])], 1)"
    by code_simp
  have c: "parse_element 0 ex_heap (ETok ex_PLUS) ex_tokens_3_4 1 = Some (None, 1)"
    by (simp add: ex_tokens_3_4_def ex_PLUS_def ex_NUMBER_def TokenDefinition_eq_def)
  then have c': "\<forall>alt \<in> set [ETok ex_PLUS]. \<exists>p. parse_element 0 ex_heap alt ex_tokens_3_4 1 = Some (None, p)"
    by simp
  from mandatory_slot_failure_resets[OF a b c'] a b c show ?thesis by simp
qed

subsection \<open>The optional phase\<close>

text \<open>
  The inner loop over alternatives returns the first success in the declared order, and
  fails only when every alternative has failed.
\<close>

lemma parse_alternatives_success:
  "parse_alternatives n h alts tokens pos = Some (Some res, q) \<Longrightarrow>
     first_success (\<lambda>opt p. parse_element n h opt tokens p) alts pos = Some (res, q)"
proof (induction alts)
  case Nil
  then show ?case by simp
next
  case (Cons alt alts)
  show ?case
  proof (cases "parse_element n h alt tokens pos")
    case None
    with Cons.prems show ?thesis by simp
  next
    case (Some x)
    obtain r p where x: "x = (r, p)" by (cases x)
    show ?thesis
    proof (cases r)
      case None
      with Some x Cons.prems have "parse_alternatives n h alts tokens pos = Some (Some res, q)"
        by simp
      from Cons.IH[OF this] Some x None show ?thesis
        by (simp add: first_success_def no_match_def)
    next
      case (Some res')
      with \<open>parse_element n h alt tokens pos = Some x\<close> x Cons.prems show ?thesis
        by (simp add: first_success_def no_match_def)
    qed
  qed
qed

lemma parse_alternatives_failure:
  "parse_alternatives n h alts tokens pos = Some (None, q) \<Longrightarrow>
     list_all (\<lambda>opt. no_match (parse_element n h opt tokens pos)) alts \<and> q = pos"
proof (induction alts)
  case Nil
  then show ?case by simp
next
  case (Cons alt alts)
  show ?case
  proof (cases "parse_element n h alt tokens pos")
    case None
    with Cons.prems show ?thesis by simp
  next
    case (Some x)
    obtain r p where x: "x = (r, p)" by (cases x)
    show ?thesis
    proof (cases r)
      case None
      with Some x Cons.prems have "parse_alternatives n h alts tokens pos = Some (None, q)"
        by simp
      from Cons.IH[OF this] Some x None show ?thesis
        by (simp add: no_match_def)
    next
      case (Some res')
      with \<open>parse_element n h alt tokens pos = Some x\<close> x Cons.prems show ?thesis
        by simp
    qed
  qed
qed

lemma parse_optional_repeat:
  "parse_optional k h opts tokens acc pos = Some (rs, p') \<Longrightarrow> k \<le> n \<Longrightarrow>
     \<exists>new. rs = acc @ new \<and>
       optional_repeat (\<lambda>opt p. parse_element n h opt tokens p) opts pos new p'"
proof (induction k arbitrary: acc pos)
  case 0
  then show ?case by simp
next
  case (Suc k)
  show ?case
  proof (cases "parse_alternatives k h opts tokens pos")
    case None
    with Suc.prems show ?thesis by simp
  next
    case (Some x)
    obtain r q where x: "x = (r, q)" by (cases x)
    from Suc.prems(2) have kn: "k \<le> n" by simp
    from fuel_mono(3)[OF Some kn] x
    have at_n: "parse_alternatives n h opts tokens pos = Some (r, q)" by simp
    show ?thesis
    proof (cases r)
      case None
      with Some x Suc.prems(1) have "rs = acc" "p' = pos" by simp_all
      moreover from parse_alternatives_failure at_n None
      have "list_all (\<lambda>opt. no_match (parse_element n h opt tokens pos)) opts" by blast
      ultimately show ?thesis by simp
    next
      case (Some res)
      with \<open>parse_alternatives k h opts tokens pos = Some x\<close> x Suc.prems(1)
      have "parse_optional k h opts tokens (acc @ [res]) q = Some (rs, p')" by simp
      from Suc.IH[OF this kn] obtain new where
        new: "rs = (acc @ [res]) @ new"
          "optional_repeat (\<lambda>opt p. parse_element n h opt tokens p) opts q new p'"
        by blast
      from parse_alternatives_success at_n Some
      have "first_success (\<lambda>opt p. parse_element n h opt tokens p) opts pos = Some (res, q)"
        by blast
      with new have "rs = acc @ (res # new) \<and>
          optional_repeat (\<lambda>opt p. parse_element n h opt tokens p) opts pos (res # new) p'"
        by simp
      then show ?thesis by blast
    qed
  qed
qed


text \<open>Conversely, the outcomes of the alternatives determine what the loops return.\<close>

lemma first_success_parse_alternatives:
  "first_success (\<lambda>opt p. parse_element n h opt tokens p) alts pos = Some (res, q) \<Longrightarrow>
     parse_alternatives n h alts tokens pos = Some (Some res, q)"
proof (induction alts)
  case Nil
  then show ?case by (simp add: first_success_def)
next
  case (Cons alt alts)
  show ?case
  proof (cases "parse_element n h alt tokens pos")
    case None
    with Cons.prems show ?thesis by (simp add: first_success_def no_match_def)
  next
    case (Some x)
    obtain r p where x: "x = (r, p)" by (cases x)
    show ?thesis
    proof (cases r)
      case None
      with Some x Cons.prems
      have "first_success (\<lambda>opt p. parse_element n h opt tokens p) alts pos = Some (res, q)"
        by (simp add: first_success_def no_match_def)
      from Cons.IH[OF this] Some x None show ?thesis by simp
    next
      case (Some res')
      with \<open>parse_element n h alt tokens pos = Some x\<close> x Cons.prems show ?thesis
        by (simp add: first_success_def no_match_def)
    qed
  qed
qed

lemma no_match_parse_alternatives:
  "list_all (\<lambda>opt. no_match (parse_element n h opt tokens pos)) alts \<Longrightarrow>
     parse_alternatives n h alts tokens pos = Some (None, pos)"
proof (induction alts)
  case Nil
  show ?case by simp
next
  case (Cons alt alts)
  from Cons.prems obtain p where "parse_element n h alt tokens pos = Some (None, p)"
    by (auto simp: no_match_def split: option.splits prod.splits)
  with Cons show ?case by simp
qed

lemma optional_repeat_parse_optional:
  "optional_repeat (\<lambda>opt p. parse_element n h opt tokens p) opts pos results final \<Longrightarrow>
     parse_optional (Suc (n + length results)) h opts tokens acc pos = Some (acc @ results, final)"
proof (induction results arbitrary: acc pos)
  case Nil
  then show ?case by (simp add: no_match_parse_alternatives)
next
  case (Cons res results)
  from Cons.prems obtain new_pos where
    fs: "first_success (\<lambda>opt p. parse_element n h opt tokens p) opts pos = Some (res, new_pos)"
    and rest: "optional_repeat (\<lambda>opt p. parse_element n h opt tokens p) opts new_pos results final"
    by (auto split: option.splits)
  have "n \<le> Suc (n + length results)" by simp
  from fuel_mono(3)[OF first_success_parse_alternatives[OF fs] this]
  have "parse_alternatives (Suc (n + length results)) h opts tokens pos = Some (Some res, new_pos)" .
  with Cons.IH[OF rest, of "acc @ [res]"] show ?case by simp
qed

text \<open>
  Once the mandatory slots have matched, the rule cannot fail: with any fuel it either
  has not returned or returns a node.
\<close>

lemma mandatory_parts_fixed:
  assumes mand: "parse_parts n h parts tokens pos node0 pos = Some (Some node, q)"
    and other: "parse_parts k h parts tokens pos node0 pos = Some y"
  shows "y = (Some node, q)"
proof (cases "k \<le> n")
  case True
  from fuel_mono(2)[OF other True] mand show ?thesis by simp
next
  case False
  then have "n \<le> k" by simp
  from fuel_mono(2)[OF mand this] other show ?thesis by simp
qed

text \<open>
  Claim C3. Take a rule that declares an \<open>"optional"\<close> slot with alternatives \<open>opts\<close>,
  and whose mandatory slots have matched, with node \<open>node\<close>, up to position \<open>q\<close>.
  \<^const>\<open>optional_repeat\<close> says, over the outcomes of the matcher of one alternative,
  what the specification describes: round after round from \<open>q\<close>, the first alternative
  in the declared order that succeeds gives the next element of \<open>results\<close> and the next
  position, and at \<open>p'\<close> no alternative matches.

  \<^item> When the rounds are \<open>results\<close> and end at \<open>p'\<close>, the rule returns, with any fuel from
    \<open>n + length results + 2\<close> on, the node \<open>node\<close> with \<open>results\<close> under \<open>"optional"\<close> ---
    and, when no round succeeded, \<open>node\<close> itself --- at position \<open>p'\<close>.
  \<^item> With no fuel does the rule fail: whatever it returns is a node.
  \<^item> Whatever it returns is of this form, for rounds \<open>results\<close> as described.
  \<^item> In \<open>node\<close> the key \<open>"optional"\<close> is absent, so it is absent from the result when no
    round succeeded, and bound to the list of results otherwise.
\<close>

theorem optional_phase:
  assumes opt: "map_of (definition_of rule) ''optional'' = Some opts"
    and mand: "parse_parts n h (filter (\<lambda>(key, alts). key \<noteq> ''optional'') (definition_of rule))
                 tokens pos [(''type'', VStr (name rule))] pos = Some (Some node, q)"
  shows "(optional_repeat (\<lambda>opt p. parse_element n h opt tokens p) opts q results p' \<longrightarrow>
            n + length results + 2 \<le> fuel \<longrightarrow>
            parse_rule fuel h rule tokens pos =
              Some (Some (VDict (if results = [] then node
                                 else AList.update ''optional'' (VList results) node)), p')) \<and>
         parse_rule fuel h rule tokens pos \<noteq> Some (None, p') \<and>
         (parse_rule fuel h rule tokens pos = Some (r, p') \<longrightarrow>
            (\<exists>results.
               optional_repeat (\<lambda>opt p. parse_element (max n fuel) h opt tokens p) opts q results p' \<and>
               r = Some (VDict (if results = [] then node
                                else AList.update ''optional'' (VList results) node)))) \<and>
         map_of node ''optional'' = None \<and>
         (results \<noteq> [] \<longrightarrow>
            map_of (AList.update ''optional'' (VList results) node) ''optional'' =
              Some (VList results))"
proof (intro conjI impI)
  let ?parts = "filter (\<lambda>(key, alts). key \<noteq> ''optional'') (definition_of rule)"
  let ?node0 = "[(''type'', VStr (name rule))]"
  {
    assume rep: "optional_repeat (\<lambda>opt p. parse_element n h opt tokens p) opts q results p'"
      and fuel: "n + length results + 2 \<le> fuel"
    from fuel obtain k where k: "fuel = Suc k" and nk: "n \<le> k"
      and lk: "Suc (n + length results) \<le> k"
      by (cases fuel) auto
    from fuel_mono(2)[OF mand nk]
    have m: "parse_parts k h ?parts tokens pos ?node0 pos = Some (Some node, q)" .
    from fuel_mono(4)[OF optional_repeat_parse_optional[OF rep, of "[]"] lk]
    have o: "parse_optional k h opts tokens [] q = Some (results, p')" by simp
    from k m o opt
    show "parse_rule fuel h rule tokens pos =
              Some (Some (VDict (if results = [] then node
                                 else AList.update ''optional'' (VList results) node)), p')"
      by simp
  }
  show "parse_rule fuel h rule tokens pos \<noteq> Some (None, p')"
  proof (cases fuel)
    case 0
    then show ?thesis by simp
  next
    case (Suc k)
    show ?thesis
    proof (cases "parse_parts k h ?parts tokens pos ?node0 pos")
      case None
      with Suc show ?thesis by simp
    next
      case (Some y)
      from mandatory_parts_fixed[OF mand Some] Some Suc opt show ?thesis
        by (simp split: option.splits prod.splits)
    qed
  qed
  {
    assume ret: "parse_rule fuel h rule tokens pos = Some (r, p')"
    then obtain k where k: "fuel = Suc k" by (cases fuel) auto
    from ret k obtain y where y: "parse_parts k h ?parts tokens pos ?node0 pos = Some y"
      by (auto split: option.splits)
    from mandatory_parts_fixed[OF mand y] y
    have m: "parse_parts k h ?parts tokens pos ?node0 pos = Some (Some node, q)" by simp
    from ret k m opt obtain results where
      po: "parse_optional k h opts tokens [] q = Some (results, p')"
      and r: "r = Some (VDict (if results \<noteq> [] then AList.update ''optional'' (VList results) node
                               else node))"
      by (auto split: option.splits prod.splits)
    from k have "k \<le> max n fuel" by simp
    from parse_optional_repeat[OF po this]
    have "optional_repeat (\<lambda>opt p. parse_element (max n fuel) h opt tokens p) opts q results p'"
      by simp
    with r show "\<exists>results.
               optional_repeat (\<lambda>opt p. parse_element (max n fuel) h opt tokens p) opts q results p' \<and>
               r = Some (VDict (if results = [] then node
                                else AList.update ''optional'' (VList results) node))"
      by (intro exI[of _ results]) auto
  }
  from parse_parts_keys[OF mand]
  have "''optional'' \<notin> fst ` set node" by auto
  then show "map_of node ''optional'' = None"
    by (simp add: map_of_eq_None_iff)
  show "map_of (AList.update ''optional'' (VList results) node) ''optional'' = Some (VList results)"
    by (simp add: update_conv')
qed

theorem optional_phase_witness:
  "map_of (definition_of ex_sum_rule) ''optional'' =
     Some [EDict [(''a'', [ETok ex_PLUS]), (''b'', [ETok ex_NUMBER])]] \<and>
   parse_parts 4 ex_heap (filter (\<lambda>(key, alts). key \<noteq> ''optional'') (definition_of ex_sum_rule))
       ex_tokens_sum 0 [(''type'', VStr (name ex_sum_rule))] 0 = Some (Some ex_sum_node, 1) \<and>
   optional_repeat (\<lambda>opt p. parse_element 4 ex_heap opt ex_tokens_sum p)
     [EDict [(''a'', [ETok ex_PLUS]), (''b'', [ETok ex_NUMBER])]] 1 ex_sum_results 5 \<and>
   ex_sum_results \<noteq> [] \<and>
   parse_rule 8 ex_heap ex_sum_rule ex_tokens_sum 0 =
     Some (Some (VDict (AList.update ''optional'' (VList ex_sum_results) ex_sum_node)), 5) \<and>
   map_of (AList.update ''optional'' (VList ex_sum_results) ex_sum_node) ''optional'' =
     Some (VList ex_sum_results) \<and>
   map_of ex_sum_node ''optional'' = None \<and>
   optional_repeat (\<lambda>opt p. parse_element 4 ex_heap opt ex_tokens_3_4 p)
     [EDict [(''a'', [ETok ex_PLUS]), (''b'', [ETok ex_NUMBER])]] 1 [] 1 \<and>
   parse_rule 6 ex_heap ex_sum_rule ex_tokens_3_4 0 =
     Some (Some (VDict [(''type'', VStr ''sum''),
                        (''a'', VDict [(''type'', VStr ''NUMBER''), (''value'', VStr ''3'')])]), 1)"
proof -
  let ?opts = "[EDict [(''a'', [ETok ex_PLUS]), (''b'', [ETok ex_NUMBER])]]"
  have a: "map_of (definition_of ex_sum_rule) ''optional'' = Some ?opts"
    by (simp add: ex_sum_rule_def)
  have b: "parse_parts 4 ex_heap (filter (\<lambda>(key, alts). key \<noteq> ''optional'') (definition_of ex_sum_rule))
       ex_tokens_sum 0 [(''type'', VStr (name ex_sum_rule))] 0 = Some (Some ex_sum_node, 1)"
    by code_simp
  have c: "optional_repeat (\<lambda>opt p. parse_element 4 ex_heap opt ex_tokens_sum p) ?opts 1
             ex_sum_results 5"
    by code_simp
  have d: "ex_sum_results \<noteq> []" by (simp add: ex_sum_results_def)
  have e: "parse_parts 4 ex_heap (filter (\<lambda>(key, alts). key \<noteq> ''optional'') (definition_of ex_sum_rule))
       ex_tokens_3_4 0 [(''type'', VStr (name ex_sum_rule))] 0 =
     Some (Some [(''type'', VStr ''sum''),
                 (''a'', VDict [(''type'', VStr ''NUMBER''), (''value'', VStr ''3'')])], 1)"
    by code_simp
  have f: "optional_repeat (\<lambda>opt p. parse_element 4 ex_heap opt ex_tokens_3_4 p) ?opts 1 [] 1"
    by code_simp
  have g: "4 + length ex_sum_results + 2 \<le> (8::nat)" by (simp add: ex_sum_results_def)
  from optional_phase[OF a b, of ex_sum_results 5 8] optional_phase[OF a e, of "[]" 1 6]
    a b c d f g
  show ?thesis by simp
qed

subsection \<open>Optional alternatives that match no token\<close>

text \<open>
  Once a round of the optional phase succeeds without consuming a token, the next round
  starts from the same position and does the same: the loop does not return.
\<close>

lemma zero_token_round_loops:
  assumes "parse_alternatives m h opts tokens p = Some (Some res, p)"
  shows "parse_optional n h opts tokens acc p = None"
proof (induction n arbitrary: acc)
  case 0
  show ?case by simp
next
  case (Suc n)
  show ?case
  proof (cases "parse_alternatives n h opts tokens p")
    case None
    then show ?thesis by simp
  next
    case (Some x)
    have "x = (Some res, p)"
    proof (cases "n \<le> m")
      case True
      from fuel_mono(3)[OF Some True] assms show ?thesis by simp
    next
      case False
      then have "m \<le> n" by simp
      from fuel_mono(3)[OF assms this] Some show ?thesis by simp
    qed
    with Some Suc.IH show ?thesis by simp
  qed
qed

text \<open>The same holds when the round without progress comes after rounds that consume.\<close>

lemma zero_token_later_round_loops:
  assumes zero: "parse_alternatives m h opts tokens p = Some (Some res, p)"
  shows "optional_rounds (\<lambda>opt p. parse_element m h opt tokens p) opts q results p \<Longrightarrow>
           parse_optional n h opts tokens acc q = None"
proof (induction results arbitrary: acc q n)
  case Nil
  with zero_token_round_loops[OF zero] show ?case by simp
next
  case (Cons r results)
  from Cons.prems obtain new_pos where
    fs: "first_success (\<lambda>opt p. parse_element m h opt tokens p) opts q = Some (r, new_pos)"
    and rest: "optional_rounds (\<lambda>opt p. parse_element m h opt tokens p) opts new_pos results p"
    by (auto split: option.splits)
  note at_m = first_success_parse_alternatives[OF fs]
  show ?case
  proof (cases n)
    case 0
    then show ?thesis by simp
  next
    case (Suc k)
    show ?thesis
    proof (cases "parse_alternatives k h opts tokens q")
      case None
      with Suc show ?thesis by simp
    next
      case (Some x)
      have "x = (Some r, new_pos)"
      proof (cases "k \<le> m")
        case True
        from fuel_mono(3)[OF Some True] at_m show ?thesis by simp
      next
        case False
        then have "m \<le> k" by simp
        from fuel_mono(3)[OF at_m this] Some show ?thesis by simp
      qed
      with Some Suc Cons.IH[OF rest] show ?thesis by simp
    qed
  qed
qed

lemma zero_token_rule_loops:
  assumes opt: "map_of (definition_of rule) ''optional'' = Some opts"
    and mand: "parse_parts m h (filter (\<lambda>(key, alts). key \<noteq> ''optional'') (definition_of rule))
                 tokens pos [(''type'', VStr (name rule))] pos = Some (Some node, q)"
    and rounds: "optional_rounds (\<lambda>opt p. parse_element m h opt tokens p) opts q results p"
    and zero: "parse_alternatives m h opts tokens p = Some (Some res, p)"
  shows "parse_rule fuel h rule tokens pos = None"
proof (cases fuel)
  case 0
  then show ?thesis by simp
next
  case (Suc k)
  show ?thesis
  proof (cases "parse_parts k h (filter (\<lambda>(key, alts). key \<noteq> ''optional'') (definition_of rule))
                 tokens pos [(''type'', VStr (name rule))] pos")
    case None
    with Suc show ?thesis by simp
  next
    case (Some y)
    from mandatory_parts_fixed[OF mand Some] Some Suc opt
      zero_token_later_round_loops[OF zero rounds]
    show ?thesis by simp
  qed
qed

lemma setitem_installs:
  "\<exists>r. rules (Parser_setitem key d self) key = Some r \<and>
        definition_of (objects (Parser_setitem key d self) r) = d"
  by (cases "rules self key") (simp_all add: Parser_setitem_def update_definition_def)

text \<open>
  Claim C4, as the code has it. \<open>Parser.__setitem__\<close> checks nothing: a definition (with
  ordinary slot names) is installed as it is given, whatever its optional alternatives can
  match. At parse time, when the mandatory slots of a rule have matched up to \<open>q\<close>, the
  rounds of its optional alternatives from \<open>q\<close> have succeeded with \<open>results\<close> (any
  number of them, also none) up to \<open>p\<close>, and the round at \<open>p\<close> succeeds without consuming
  a token, the matcher does not return, whatever the fuel.
\<close>

theorem setitem_accepts_zero_token_optional:
  "(plain_slots d \<longrightarrow>
      (\<exists>r. rules (Parser_setitem key d self) key = Some r \<and>
           definition_of (objects (Parser_setitem key d self) r) = d)) \<and>
   (map_of (definition_of rule) ''optional'' = Some opts \<longrightarrow>
    parse_parts m h (filter (\<lambda>(key, alts). key \<noteq> ''optional'') (definition_of rule))
       tokens pos [(''type'', VStr (name rule))] pos = Some (Some node, q) \<longrightarrow>
    optional_rounds (\<lambda>opt p. parse_element m h opt tokens p) opts q results p \<longrightarrow>
    parse_alternatives m h opts tokens p = Some (Some res, p) \<longrightarrow>
    parse_rule fuel h rule tokens pos = None)"
  using setitem_installs zero_token_rule_loops by blast

theorem setitem_accepts_zero_token_optional_witness:
  "plain_slots late_loop_definition \<and>
   rules (Parser_setitem ''loop'' late_loop_definition Parser_init) ''loop'' = Some 0 \<and>
   definition_of (objects (Parser_setitem ''loop'' late_loop_definition Parser_init) 0) =
     late_loop_definition \<and>
   map_of (definition_of (objects late_loop_parser 0)) ''optional'' = Some [ETok ex_PLUS, EDict []] \<and>
   parse_parts 1 (objects late_loop_parser)
       (filter (\<lambda>(key, alts). key \<noteq> ''optional'') (definition_of (objects late_loop_parser 0)))
       ex_tokens_3_plus 0 [(''type'', VStr (name (objects late_loop_parser 0)))] 0 =
     Some (Some [(''type'', VStr ''loop''),
                 (''a'', VDict [(''type'', VStr ''NUMBER''), (''value'', VStr ''3'')])], 1) \<and>
   optional_rounds (\<lambda>opt p. parse_element 1 (objects late_loop_parser) opt ex_tokens_3_plus p)
       [ETok ex_PLUS, EDict []] 1
       [VDict [(''type'', VStr ''PLUS''), (''value'', VStr ''+'')]] 2 \<and>
   parse_alternatives 1 (objects late_loop_parser) [ETok ex_PLUS, EDict []] ex_tokens_3_plus 2 =
     Some (Some (VDict [(''type'', VStr ''temp'')]), 2) \<and>
   parse_rule 1000 (objects late_loop_parser) (objects late_loop_parser 0) ex_tokens_3_plus 0 = None"
proof -
  have a: "plain_slots late_loop_definition" by code_simp
  have b: "rules (Parser_setitem ''loop'' late_loop_definition Parser_init) ''loop'' = Some 0"
    by code_simp
  have c: "definition_of (objects (Parser_setitem ''loop'' late_loop_definition Parser_init) 0) =
             late_loop_definition"
    by code_simp
  have d: "map_of (definition_of (objects late_loop_parser 0)) ''optional'' =
             Some [ETok ex_PLUS, EDict []]"
    by code_simp
  have e: "parse_parts 1 (objects late_loop_parser)
       (filter (\<lambda>(key, alts). key \<noteq> ''optional'') (definition_of (objects late_loop_parser 0)))
       ex_tokens_3_plus 0 [(''type'', VStr (name (objects late_loop_parser 0)))] 0 =
     Some (Some [(''type'', VStr ''loop''),
                 (''a'', VDict [(''type'', VStr ''NUMBER''), (''value'', VStr ''3'')])], 1)"
    by code_simp
  have f: "optional_rounds (\<lambda>opt p. parse_element 1 (objects late_loop_parser) opt ex_tokens_3_plus p)
       [ETok ex_PLUS, EDict []] 1
       [VDict [(''type'', VStr ''PLUS''), (''value'', VStr ''+'')]] 2"
    by code_simp
  have g: "parse_alternatives 1 (objects late_loop_parser) [ETok ex_PLUS, EDict []]
             ex_tokens_3_plus 2 = Some (Some (VDict [(''type'', VStr ''temp'')]), 2)"
    by code_simp
  from setitem_accepts_zero_token_optional[of late_loop_definition "''loop''" Parser_init
      "objects late_loop_parser 0" "[ETok ex_PLUS, EDict []]" 1 "objects late_loop_parser"
      ex_tokens_3_plus 0 _ 1 "[VDict [(''type'', VStr ''PLUS''), (''value'', VStr ''+'')]]" 2
      _ 1000] a b c d e f g
  show ?thesis by simp
qed

text \<open>
  Claim C4 as stated fails: the definition \<open>{"a": [NUMBER], "optional": [{}]}\<close>, whose
  optional alternative \<open>{}\<close> matches the empty input, is accepted and stored by
  \<open>__setitem__\<close>, and parsing one number with it has not returned after 50 units of fuel.
\<close>

theorem zero_token_optional_not_rejected:
  "rules loop_parser ''loop'' = Some 0 \<and>
   definition_of (objects loop_parser 0) = loop_definition \<and>
   map_of loop_definition ''optional'' = Some [EDict []] \<and>
   parse_element 1 (objects loop_parser) (EDict []) [] 0 =
     Some (Some (VDict [(''type'', VStr ''temp'')]), 0) \<and>
   parse 50 loop_parser [Token ex_NUMBER ''3'' 0] ''loop'' = None"
  by code_simp

subsection \<open>\<open>Parser.parse\<close>\<close>

text \<open>
  What \<open>parse\<close> does with the result of the start rule. The test of the code is
  \<open>pos != len(tokens)\<close>; by the position invariant this is \<open>pos < len(tokens)\<close>.
\<close>

lemma parse_outcome:
  assumes "rules self start_rule_name = Some r"
    and "parse_rule fuel (objects self) (objects self r) tokens 0 = Some (result, pos)"
  shows "parse fuel self tokens start_rule_name =
           (case result of
              None \<Rightarrow> Some (Inl (ValueError ''Parsing failed''))
            | Some node \<Rightarrow>
                if pos < length tokens then Some (Inl (ValueError ''Parsing failed''))
                else Some (Inr node))"
proof -
  from position_invariant(1)[OF assms(2)] have "pos \<le> length tokens" by simp
  then have "pos \<noteq> length tokens \<longleftrightarrow> pos < length tokens" by auto
  with assms show ?thesis
    by (simp add: parse_def split: option.splits)
qed

text \<open>
  Claim C2. For a registered start rule whose match from position 0 returns: \<open>parse\<close>
  raises \<open>ValueError("Parsing failed")\<close> exactly when the rule did not match, or matched
  and stopped before the end of the tokens; otherwise it returns the node. On the grammar
  of \<open>src/main.py\<close> the text \<open>3 + 4 5\<close> gives four tokens, the rule \<open>math\<close> matches the
  first three, and \<open>parse\<close> (also through \<open>interpret\<close>) raises that error.
\<close>

theorem parse_fails_exactly_when:
  "(rules self start_rule_name = Some r \<longrightarrow>
    parse_rule fuel (objects self) (objects self r) tokens 0 = Some (result, pos) \<longrightarrow>
      (parse fuel self tokens start_rule_name = Some (Inl (ValueError ''Parsing failed'')) \<longleftrightarrow>
         result = None \<or> (result \<noteq> None \<and> pos < length tokens)) \<and>
      (\<forall>node. result = Some node \<longrightarrow> pos = length tokens \<longrightarrow>
         parse fuel self tokens start_rule_name = Some (Inr node))) \<and>
   tokenize engine 20 main_token_defs ''3 + 4 5'' = Some (Inr ex_tokens_3_plus_4_5) \<and>
   map_option (\<lambda>(result, pos). (result \<noteq> None, pos))
     (parse_rule 20 (objects main_parser) (objects main_parser 1) ex_tokens_3_plus_4_5 0) =
     Some (True, 3) \<and>
   parse 20 main_parser ex_tokens_3_plus_4_5 ''math'' = Some (Inl (ValueError ''Parsing failed'')) \<and>
   interpret_text engine 20 main_interpreter ''3 + 4 5'' = Some (Inl (ValueError ''Parsing failed''))"
proof -
  have general: "rules self start_rule_name = Some r \<longrightarrow>
    parse_rule fuel (objects self) (objects self r) tokens 0 = Some (result, pos) \<longrightarrow>
      (parse fuel self tokens start_rule_name = Some (Inl (ValueError ''Parsing failed'')) \<longleftrightarrow>
         result = None \<or> (result \<noteq> None \<and> pos < length tokens)) \<and>
      (\<forall>node. result = Some node \<longrightarrow> pos = length tokens \<longrightarrow>
         parse fuel self tokens start_rule_name = Some (Inr node))"
    by (auto simp: parse_outcome split: option.splits)
  have e1: "tokenize engine 20 main_token_defs ''3 + 4 5'' = Some (Inr ex_tokens_3_plus_4_5)"
    by code_simp
  have e2: "map_option (\<lambda>(result, pos). (result \<noteq> None, pos))
     (parse_rule 20 (objects main_parser) (objects main_parser 1) ex_tokens_3_plus_4_5 0) =
     Some (True, 3)"
    by code_simp
  have e3: "parse 20 main_parser ex_tokens_3_plus_4_5 ''math'' = Some (Inl (ValueError ''Parsing failed''))"
    by code_simp
  have e4: "interpret_text engine 20 main_interpreter ''3 + 4 5'' = Some (Inl (ValueError ''Parsing failed''))"
    by code_simp
  from general e1 e2 e3 e4 show ?thesis by blast
qed

theorem parse_fails_exactly_when_witness:
  "rules main_parser ''math'' = Some 1 \<and>
   parse_rule 20 (objects main_parser) (objects main_parser 1) [Token tk_NUMBER ''3'' 0] 0 = Some (None, 0) \<and>
   parse 20 main_parser [Token tk_NUMBER ''3'' 0] ''math'' = Some (Inl (ValueError ''Parsing failed''))"
proof -
  have a: "rules main_parser ''math'' = Some 1" by code_simp
  have b: "parse_rule 20 (objects main_parser) (objects main_parser 1) [Token tk_NUMBER ''3'' 0] 0 = Some (None, 0)"
    by code_simp
  from parse_fails_exactly_when[of main_parser "''math''" 1 20 "[Token tk_NUMBER ''3'' 0]" None 0] a b
  show ?thesis by simp
qed

subsection \<open>The start rule\<close>

text \<open>
  Claim C7 as stated fails: the test of \<open>interpret\<close> for a left parenthesis is the kind
  name \<open>"LPAREN"\<close>, not the kind. With the rules of \<open>src/main.py\<close>, where the grouping
  rule \<open>paren_math\<close> is registered and no rule is named \<open>program\<close>, \<open>LP\<close> or \<open>lp\<close>, a
  first token of the kind \<open>LP\<close> with the literal \<open>(\<close> selects \<open>math\<close>.
\<close>

theorem left_parenthesis_kind_by_name_only:
  "def_value ex_LP = Some ''('' \<and>
   rules main_parser ''paren_math'' = Some 0 \<and>
   rules main_parser ''program'' = None \<and>
   rules main_parser ''LP'' = None \<and>
   rules main_parser (lower ''LP'') = None \<and>
   select_start_rule (rules main_parser) [Token ex_LP ''('' 0] = ''math''"
  by code_simp

text \<open>
  Claim C7, as the code has it. The start rule \<open>interpret\<close> selects for a text:
  \<open>"program"\<close> when a rule of that name is registered; otherwise, when there is no
  token, \<open>"math"\<close>; otherwise, with the kind name of the first token, that name when a
  rule of exactly that name is registered, else the lowercased name when a rule of that
  name is registered, else \<open>"paren_math"\<close> when the kind name is \<open>"LPAREN"\<close> and a rule
  \<open>paren_math\<close> is registered, else \<open>"math"\<close>. The three names are constants of the code.
  Lowercasing maps each of the letters \<open>A\<close> to \<open>Z\<close> to its small letter, character by
  character, and changes no other character below \<open>\<^verbatim>\<open>\xc0\<close>\<close>.
\<close>

theorem start_rule_policy:
  "(parser_rules ''program'' \<noteq> None \<longrightarrow> select_start_rule parser_rules tokens = ''program'') \<and>
   (parser_rules ''program'' = None \<longrightarrow>
      select_start_rule parser_rules [] = ''math'' \<and>
      (parser_rules (def_name (tok_type t)) \<noteq> None \<longrightarrow>
         select_start_rule parser_rules (t # ts) = def_name (tok_type t)) \<and>
      (parser_rules (def_name (tok_type t)) = None \<longrightarrow>
         (parser_rules (lower (def_name (tok_type t))) \<noteq> None \<longrightarrow>
            select_start_rule parser_rules (t # ts) = lower (def_name (tok_type t))) \<and>
         (parser_rules (lower (def_name (tok_type t))) = None \<longrightarrow>
            (def_name (tok_type t) = ''LPAREN'' \<longrightarrow> parser_rules ''paren_math'' \<noteq> None \<longrightarrow>
               select_start_rule parser_rules (t # ts) = ''paren_math'') \<and>
            (def_name (tok_type t) = ''LPAREN'' \<longrightarrow> parser_rules ''paren_math'' = None \<longrightarrow>
               select_start_rule parser_rules (t # ts) = ''math'') \<and>
            (def_name (tok_type t) \<noteq> ''LPAREN'' \<longrightarrow>
               select_start_rule parser_rules (t # ts) = ''math'')))) \<and>
   lower ''ABCDEFGHIJKLMNOPQRSTUVWXYZ'' = ''abcdefghijklmnopqrstuvwxyz'' \<and>
   lower (a @ b) = lower a @ lower b \<and>
   ((of_char c :: nat) < 65 \<or> (90 < (of_char c :: nat) \<and> (of_char c :: nat) < 192) \<longrightarrow>
      lower [c] = [c])"
proof -
  let ?kind = "def_name (tok_type t)"
  have m: "lower ''math'' = ''math''" by code_simp
  have az: "lower ''ABCDEFGHIJKLMNOPQRSTUVWXYZ'' = ''abcdefghijklmnopqrstuvwxyz''" by code_simp
  have app: "lower (a @ b) = lower a @ lower b" by (simp add: lower_def)
  have other: "(of_char c :: nat) < 65 \<or> (90 < (of_char c :: nat) \<and> (of_char c :: nat) < 192) \<longrightarrow>
      lower [c] = [c]"
    by (auto simp: lower_def lower_char_def Let_def)
  have c1: "select_start_rule parser_rules tokens = ''program''"
    if "parser_rules ''program'' \<noteq> None"
    using that by (simp add: select_start_rule_def Let_def)
  have c2: "select_start_rule parser_rules [] = ''math''"
    if "parser_rules ''program'' = None"
    using that m by (simp add: select_start_rule_def Let_def)
  have c3: "select_start_rule parser_rules (t # ts) = ?kind"
    if "parser_rules ''program'' = None" "parser_rules ?kind \<noteq> None"
    using that by (simp add: select_start_rule_def Let_def)
  have c4: "select_start_rule parser_rules (t # ts) = lower ?kind"
    if "parser_rules ''program'' = None" "parser_rules ?kind = None"
      "parser_rules (lower ?kind) \<noteq> None"
    using that by (simp add: select_start_rule_def Let_def)
  have c5: "select_start_rule parser_rules (t # ts) = ''paren_math''"
    if "parser_rules ''program'' = None" "parser_rules ?kind = None"
      "parser_rules (lower ?kind) = None" "?kind = ''LPAREN''"
      "parser_rules ''paren_math'' \<noteq> None"
    using that by (simp add: select_start_rule_def Let_def)
  have c6: "select_start_rule parser_rules (t # ts) = ''math''"
    if "parser_rules ''program'' = None" "parser_rules ?kind = None"
      "parser_rules (lower ?kind) = None" "?kind = ''LPAREN''"
      "parser_rules ''paren_math'' = None"
    using that by (simp add: select_start_rule_def Let_def)
  have c7: "select_start_rule parser_rules (t # ts) = ''math''"
    if "parser_rules ''program'' = None" "parser_rules ?kind = None"
      "parser_rules (lower ?kind) = None" "?kind \<noteq> ''LPAREN''"
    using that by (simp add: select_start_rule_def Let_def)
  from c1 c2 c3 c4 c5 c6 c7 az app other show ?thesis by blast
qed

theorem start_rule_policy_witness:
  "rules main_parser ''program'' = None \<and>
   rules main_parser ''PRINT'' = None \<and>
   lower ''PRINT'' = ''print'' \<and>
   rules main_parser ''print'' = Some 3 \<and>
   select_start_rule (rules main_parser) ex_tokens_print = ''print'' \<and>
   rules main_parser ''LPAREN'' = None \<and>
   rules main_parser (lower ''LPAREN'') = None \<and>
   rules main_parser ''paren_math'' = Some 0 \<and>
   select_start_rule (rules main_parser) ex_tokens_paren = ''paren_math'' \<and>
   rules main_parser ''NUMBER'' = None \<and>
   rules main_parser (lower ''NUMBER'') = None \<and>
   select_start_rule (rules main_parser) ex_tokens_3_plus_4_5 = ''math'' \<and>
   select_start_rule (rules main_parser) [] = ''math'' \<and>
   rules (new_parsing_rule ''PRINT'' main_parser) ''program'' = None \<and>
   rules (new_parsing_rule ''PRINT'' main_parser) ''PRINT'' = Some 4 \<and>
   select_start_rule (rules (new_parsing_rule ''PRINT'' main_parser)) ex_tokens_print = ''PRINT'' \<and>
   rules (new_parsing_rule ''program'' main_parser) ''program'' = Some 4 \<and>
   select_start_rule (rules (new_parsing_rule ''program'' main_parser)) ex_tokens_print = ''program''"
proof -
  have r: "rules main_parser ''program'' = None" "rules main_parser ''PRINT'' = None"
    "rules main_parser ''print'' = Some 3" "rules main_parser ''LPAREN'' = None"
    "rules main_parser (lower ''LPAREN'') = None" "rules main_parser ''paren_math'' = Some 0"
    "rules main_parser ''NUMBER'' = None" "rules main_parser (lower ''NUMBER'') = None"
    "rules (new_parsing_rule ''PRINT'' main_parser) ''program'' = None"
    "rules (new_parsing_rule ''PRINT'' main_parser) ''PRINT'' = Some 4"
    "rules (new_parsing_rule ''program'' main_parser) ''program'' = Some 4"
    by code_simp+
  have l: "lower ''PRINT'' = ''print''" by code_simp
  have k: "def_name tk_PRINT = ''PRINT''" "def_name tk_LPAREN = ''LPAREN''"
    "def_name tk_NUMBER = ''NUMBER''"
    by code_simp+
  have n: "''NUMBER'' \<noteq> ''LPAREN''" by simp
  note p = start_rule_policy[where parser_rules = "rules main_parser"]
  note print = p[where t = "Token tk_PRINT ''print'' 0" and ts = "tl ex_tokens_print"]
  note paren = p[where t = "Token tk_LPAREN ''('' 0" and ts = "tl ex_tokens_paren"]
  note number = p[where t = "Token tk_NUMBER ''3'' 0" and ts = "tl ex_tokens_3_plus_4_5"]
  note exact = start_rule_policy[where parser_rules = "rules (new_parsing_rule ''PRINT'' main_parser)"
      and t = "Token tk_PRINT ''print'' 0" and ts = "tl ex_tokens_print"]
  note program = start_rule_policy[where parser_rules = "rules (new_parsing_rule ''program'' main_parser)"
      and tokens = ex_tokens_print]
  have t: "ex_tokens_print = Token tk_PRINT ''print'' 0 # tl ex_tokens_print"
    "ex_tokens_paren = Token tk_LPAREN ''('' 0 # tl ex_tokens_paren"
    "ex_tokens_3_plus_4_5 = Token tk_NUMBER ''3'' 0 # tl ex_tokens_3_plus_4_5"
    by (simp_all add: ex_tokens_print_def ex_tokens_paren_def ex_tokens_3_plus_4_5_def)
  have s1: "select_start_rule (rules main_parser) ex_tokens_print = ''print''"
    using print r l k by (subst t(1)) simp
  have s2: "select_start_rule (rules main_parser) ex_tokens_paren = ''paren_math''"
    using paren r k by (subst t(2)) simp
  have s3: "select_start_rule (rules main_parser) ex_tokens_3_plus_4_5 = ''math''"
    using number r k n by (subst t(3)) simp
  have s4: "select_start_rule (rules main_parser) [] = ''math''"
    using p r by simp
  have s5: "select_start_rule (rules (new_parsing_rule ''PRINT'' main_parser)) ex_tokens_print = ''PRINT''"
    using exact r k by (subst t(1)) simp
  have s6: "select_start_rule (rules (new_parsing_rule ''program'' main_parser)) ex_tokens_print = ''program''"
    using program r by simp
  from r l s1 s2 s3 s4 s5 s6 show ?thesis by simp
qed

subsection \<open>Rule handles\<close>

text \<open>
  Claim C8 as stated fails: a second \<open>new_parsing_rule("r")\<close> creates a second rule
  object (handle 1, the first was 0) and binds the name to it; a definition installed
  afterwards under \<open>"r"\<close> reaches the second object only, and a reference to the first
  still sees the empty definition.
\<close>

theorem new_parsing_rule_not_idempotent:
  "rules (new_parsing_rule ''r'' Parser_init) ''r'' = Some 0 \<and>
   rules (new_parsing_rule ''r'' (new_parsing_rule ''r'' Parser_init)) ''r'' = Some 1 \<and>
   fresh (new_parsing_rule ''r'' (new_parsing_rule ''r'' Parser_init)) = 2 \<and>
   definition_of (objects (Parser_setitem ''r'' ex_a_definition
      (new_parsing_rule ''r'' (new_parsing_rule ''r'' Parser_init))) 0) = [] \<and>
   definition_of (objects (Parser_setitem ''r'' ex_a_definition
      (new_parsing_rule ''r'' (new_parsing_rule ''r'' Parser_init))) 1) = ex_a_definition"
  by code_simp

text \<open>
  Claim C8, as the code has it. \<open>__setitem__\<close> on a registered name keeps the handle,
  creates no rule object and replaces the definition of the object in place, so that every
  reference to the handle sees the new definition, and it leaves every other rule object
  as it was. \<open>new_parsing_rule\<close> always creates a
  fresh empty rule object and binds the name to it; the object the name was bound to
  before is another one, and stays as it was.
\<close>

theorem rule_handles:
  "(plain_slots d \<longrightarrow>
     (\<forall>r. rules self nm = Some r \<longrightarrow>
        rules (Parser_setitem nm d self) nm = Some r \<and>
        fresh (Parser_setitem nm d self) = fresh self \<and>
        definition_of (objects (Parser_setitem nm d self) r) = d \<and>
        name (objects (Parser_setitem nm d self) r) = name (objects self r) \<and>
        (\<forall>r'. r' \<noteq> r \<longrightarrow> objects (Parser_setitem nm d self) r' = objects self r'))) \<and>
   rules (new_parsing_rule nm self) nm = Some (fresh self) \<and>
   fresh (new_parsing_rule nm self) = Suc (fresh self) \<and>
   objects (new_parsing_rule nm self) (fresh self) = new_ParsingRule nm \<and>
   (registry_ok self \<longrightarrow>
     (\<forall>r. rules self nm = Some r \<longrightarrow>
        r \<noteq> fresh self \<and> objects (new_parsing_rule nm self) r = objects self r))"
proof -
  have "registry_ok self \<Longrightarrow> rules self nm = Some r \<Longrightarrow> r \<noteq> fresh self" for r
    by (auto simp: registry_ok_def ran_def)
  then show ?thesis
    by (auto simp: Parser_setitem_def new_parsing_rule_def update_definition_def)
qed

theorem rule_handles_witness:
  "plain_slots ex_a_definition \<and>
   registry_ok (new_parsing_rule ''r'' Parser_init) \<and>
   rules (new_parsing_rule ''r'' Parser_init) ''r'' = Some 0 \<and>
   rules (Parser_setitem ''r'' ex_a_definition (new_parsing_rule ''r'' Parser_init)) ''r'' = Some 0 \<and>
   definition_of (objects (Parser_setitem ''r'' ex_a_definition (new_parsing_rule ''r'' Parser_init)) 0) =
     ex_a_definition \<and>
   (0::nat) \<noteq> fresh (new_parsing_rule ''r'' Parser_init)"
proof -
  have a: "plain_slots ex_a_definition" by code_simp
  have b: "registry_ok (new_parsing_rule ''r'' Parser_init)"
    by (simp add: registry_ok_def new_parsing_rule_def Parser_init_def)
  have c: "rules (new_parsing_rule ''r'' Parser_init) ''r'' = Some 0" by code_simp
  from rule_handles[of ex_a_definition "new_parsing_rule ''r'' Parser_init" "''r''"] a b c
  show ?thesis by simp
qed

subsection \<open>Token-kind registration\<close>

text \<open>
  Claim C9. \<open>add_token\<close> always leaves the name bound to the new literal kind, whatever
  was registered under it, and changes no other name; \<open>add_auto_token\<close> under a name that
  exists leaves the catalog as it is (and under a new name registers the pattern kind).
\<close>

theorem registration_asymmetry:
  "map_of (add_token nm literal tokens) nm = Some (TokenDefinition nm (Some literal) None) \<and>
   (\<forall>k. k \<noteq> nm \<longrightarrow> map_of (add_token nm literal tokens) k = map_of tokens k) \<and>
   (nm \<in> fst ` set tokens \<longrightarrow> add_auto_token nm tokens = tokens) \<and>
   (nm \<notin> fst ` set tokens \<longrightarrow>
      map_of (add_auto_token nm tokens) nm = Some (TokenDefinition nm None (Some (auto_pattern nm))))"
  by (simp add: add_token_def add_auto_token_def update_conv')

theorem registration_asymmetry_witness:
  "''NUMBER'' \<in> fst ` set main_tokentype \<and>
   map_of main_tokentype ''NUMBER'' = Some (TokenDefinition ''NUMBER'' None (Some NUMBER_pattern)) \<and>
   add_auto_token ''NUMBER'' main_tokentype = main_tokentype \<and>
   map_of (add_token ''NUMBER'' ''number'' main_tokentype) ''NUMBER'' =
     Some (TokenDefinition ''NUMBER'' (Some ''number'') None) \<and>
   map_of (add_token ''NUMBER'' ''number'' main_tokentype) ''PLUS'' = map_of main_tokentype ''PLUS'' \<and>
   ''WORD'' \<notin> fst ` set main_tokentype \<and>
   map_of (add_auto_token ''WORD'' main_tokentype) ''WORD'' =
     Some (TokenDefinition ''WORD'' None (Some WORD_pattern))"
proof -
  have a: "''NUMBER'' \<in> fst ` set main_tokentype" by code_simp
  have b: "map_of main_tokentype ''NUMBER'' = Some (TokenDefinition ''NUMBER'' None (Some NUMBER_pattern))"
    by code_simp
  have c: "''WORD'' \<notin> fst ` set main_tokentype" by code_simp
  have d: "auto_pattern ''WORD'' = WORD_pattern" by code_simp
  from registration_asymmetry[of "''NUMBER''" "''number''" main_tokentype]
    registration_asymmetry[of "''WORD''" "''w''" main_tokentype] a b c d
  show ?thesis by simp
qed

subsection \<open>The lexer\<close>

text \<open>
  The two scans of \<open>tokenize\<close> against the scans the specification describes:
  \<open>startswith\<close> is the prefix test, and the second scan takes the first pattern kind that
  matches at all.
\<close>

lemma startswith_prefix: "startswith text literal position \<longleftrightarrow> prefix literal (drop position text)"
proof
  assume "startswith text literal position"
  then have "drop position text = literal @ drop (length literal) (drop position text)"
    by (metis append_take_drop_id startswith_def)
  then show "prefix literal (drop position text)"
    by (metis prefixI)
next
  assume "prefix literal (drop position text)"
  then obtain zs where "drop position text = literal @ zs"
    by (auto simp: prefix_def)
  then show "startswith text literal position"
    by (simp add: startswith_def)
qed

lemma match_literal_spec:
  "match_literal token_defs text position = spec_first_literal token_defs (drop position text)"
proof (induction token_defs)
  case Nil
  show ?case by (simp add: spec_first_literal_def literal_kinds_def)
next
  case (Cons d ds)
  then show ?case
    by (cases "def_value d")
       (simp_all add: spec_first_literal_def literal_kinds_def map_filter_simps startswith_prefix)
qed

lemma unexpected_token_raised:
  "unexpected_token position text = raised (LexError position (drop position text))"
  by (simp add: unexpected_token_def raised_def)

lemma pattern_wins_any: "pattern_wins False engine p s \<longleftrightarrow> re_match engine p s \<noteq> None"
  by (simp add: pattern_wins_def split: option.splits)

lemma match_auto_spec:
  "list_all one_of_literal_or_pattern token_defs \<Longrightarrow>
     match_auto engine token_defs text position =
       Inr (first_pattern False engine token_defs (drop position text))"
proof (induction token_defs)
  case Nil
  show ?case by (simp add: first_pattern_def pattern_kinds_def)
next
  case (Cons d ds)
  from Cons.prems have d: "one_of_literal_or_pattern d" and ds: "list_all one_of_literal_or_pattern ds"
    by simp_all
  note IH = Cons.IH[OF ds]
  show ?case
  proof (cases "def_value d")
    case (Some literal)
    with IH show ?thesis
      by (simp add: first_pattern_def pattern_kinds_def map_filter_simps)
  next
    case None
    with d obtain p where p: "def_pattern d = Some p"
      by (auto simp: one_of_literal_or_pattern_def)
    show ?thesis
    proof (cases "re_match engine p (drop position text)")
      case None
      with \<open>def_value d = None\<close> p IH show ?thesis
        by (simp add: first_pattern_def pattern_kinds_def map_filter_simps pattern_wins_any)
    next
      case (Some v)
      with \<open>def_value d = None\<close> p show ?thesis
        by (simp add: first_pattern_def pattern_kinds_def map_filter_simps pattern_wins_any)
    qed
  qed
qed

text \<open>
  Where no pattern of the list can match the empty text, a pattern that matches matches a
  non-empty prefix, and the two readings of the second scan agree. The four patterns of
  \<open>add_auto_token\<close> are of this kind.
\<close>

lemma auto_patterns_nonempty:
  "re_match engine p s = Some v \<Longrightarrow> \<forall>src. p \<noteq> Regex src \<Longrightarrow> v \<noteq> []"
  by (cases p) (auto simp: Let_def split: list.splits if_splits)

lemma first_pattern_nonempty:
  "\<forall>d \<in> set token_defs. \<forall>p s. def_pattern d = Some p \<longrightarrow> re_match engine p s \<noteq> Some [] \<Longrightarrow>
     first_pattern True engine token_defs rest = first_pattern False engine token_defs rest"
proof (induction token_defs)
  case Nil
  show ?case by (simp add: first_pattern_def pattern_kinds_def)
next
  case (Cons d ds)
  from Cons.prems have
    ds: "\<forall>d \<in> set ds. \<forall>p s. def_pattern d = Some p \<longrightarrow> re_match engine p s \<noteq> Some []"
    and d: "\<And>p s. def_pattern d = Some p \<Longrightarrow> re_match engine p s \<noteq> Some []"
    by simp_all
  from Cons.IH[OF ds]
  have IH: "first_pattern True engine ds rest = first_pattern False engine ds rest" .
  show ?case
  proof (cases "def_value d = None \<and> def_pattern d \<noteq> None")
    case False
    with IH show ?thesis
      by (auto simp: first_pattern_def pattern_kinds_def map_filter_simps)
  next
    case True
    then obtain p where p: "def_value d = None" "def_pattern d = Some p" by auto
    from d[OF p(2), of rest]
    have "pattern_wins True engine p rest = pattern_wins False engine p rest"
      by (auto simp: pattern_wins_def split: option.splits)
    with p IH show ?thesis
      by (simp add: first_pattern_def pattern_kinds_def map_filter_simps)
  qed
qed

lemma lex_rounds_nonempty:
  assumes "nonempty_matches engine token_defs"
  shows "lex_rounds True engine fuel token_defs text offset =
           lex_rounds False engine fuel token_defs text offset"
proof -
  from assms have "first_pattern True engine token_defs rest = first_pattern False engine token_defs rest"
    for rest
    by (intro first_pattern_nonempty) (simp add: nonempty_matches_def)
  then have fp: "first_pattern True engine token_defs = first_pattern False engine token_defs"
    by (intro ext)
  show ?thesis
  proof (induction fuel arbitrary: offset)
    case 0
    show ?case by simp
  next
    case (Suc fuel)
    then have "lex_rounds True engine fuel token_defs text = lex_rounds False engine fuel token_defs text"
      by (intro ext)
    then show ?case by (simp only: lex_rounds.simps fp)
  qed
qed

text \<open>
  The loop of the code, which appends to an accumulator, against the rounds of the
  algorithm, which return the tokens from an offset on.
\<close>

lemma tokenize_loop_spec:
  assumes "list_all one_of_literal_or_pattern token_defs"
  shows "tokenize_loop engine fuel token_defs text position tokens =
           (case lex_rounds False engine fuel token_defs text position of
              None \<Rightarrow> None
            | Some (Inl e) \<Rightarrow> Some (Inl (raised e))
            | Some (Inr later) \<Rightarrow> Some (Inr (tokens @ later)))"
proof (induction fuel arbitrary: position tokens)
  case 0
  show ?case by simp
next
  case (Suc fuel)
  show ?case
  proof (cases "position < length text")
    case False
    then show ?thesis by simp
  next
    case True
    define p where "p = skip_whitespace text position"
    have p': "position + length (takeWhile isspace (drop position text)) = p"
      by (simp add: p_def skip_whitespace_def)
    show ?thesis
    proof (cases "length text \<le> p")
      case True
      with \<open>position < length text\<close> p' show ?thesis
        by (simp add: p_def[symmetric] Let_def)
    next
      case False
      then have rest: "drop p text \<noteq> []" by simp
      show ?thesis
      proof (cases "spec_first_literal token_defs (drop p text)")
        case (Some m)
        obtain d l where m: "m = (d, l)" by (cases m)
        from Some m have ml: "match_literal token_defs text p = Some (d, l)"
          by (simp add: match_literal_spec)
        from True False rest p' Some m ml Suc.IH[of "p + length l" "tokens @ [Token d l p]"]
        show ?thesis
          by (simp add: p_def[symmetric] Let_def split: option.splits sum.splits)
      next
        case None
        then have ml: "match_literal token_defs text p = None"
          by (simp add: match_literal_spec)
        note ma = match_auto_spec[OF assms, of engine "text" p]
        show ?thesis
        proof (cases "first_pattern False engine token_defs (drop p text)")
          case None
          with True False rest p' \<open>spec_first_literal token_defs (drop p text) = None\<close> ml ma
          show ?thesis
            by (simp add: p_def[symmetric] Let_def unexpected_token_raised)
        next
          case (Some m)
          obtain d v where m: "m = (d, v)" by (cases m)
          from True False rest p' \<open>spec_first_literal token_defs (drop p text) = None\<close> ml ma Some m
            Suc.IH[of "p + length v" "tokens @ [Token d v p]"]
          show ?thesis
            by (simp add: p_def[symmetric] Let_def split: option.splits sum.splits)
        qed
      qed
    qed
  qed
qed

lemma strip_head: "strip s \<noteq> [] \<Longrightarrow> \<not> isspace (hd (strip s))"
proof -
  assume ne: "strip s \<noteq> []"
  define t where "t = dropWhile isspace s"
  have "strip s = []" if "t = []"
    unfolding strip_def t_def[symmetric] that by simp
  with ne have "t \<noteq> []" by blast
  then obtain c t' where t: "t = c # t'" by (cases t) auto
  have c: "\<not> isspace c"
    using t by (simp add: t_def dropWhile_eq_Cons_conv)
  have "rev t = rev t' @ [c]" by (simp add: t)
  then have "dropWhile isspace (rev t) = dropWhile isspace (rev t') @ [c]"
    using c by (simp add: dropWhile_append3)
  then have "strip s = c # rev (dropWhile isspace (rev t'))"
    by (simp add: strip_def t_def[symmetric])
  with c show ?thesis by simp
qed

lemma skip_whitespace_stripped: "strip s \<noteq> [] \<Longrightarrow> skip_whitespace (strip s) 0 = 0"
  using strip_head[of s] by (cases "strip s") (simp_all add: skip_whitespace_def)

text \<open>
  The message of the error carries the offset: the numeral \<open>str_nat\<close> prints reads back as
  the number.
\<close>

lemma digit_char:
  assumes "d < 10"
  shows "isdigit (''0123456789'' ! d) \<and> (of_char (''0123456789'' ! d) :: nat) = 48 + d"
proof -
  from assms have "d \<in> {0, 1, 2, 3, 4, 5, 6, 7, 8, 9}" by auto
  then show ?thesis by (auto simp: isdigit_def)
qed

lemma decimal_snoc: "decimal (ds @ [c]) = 10 * decimal ds + (of_char c - 48)"
  by (simp add: decimal_def)

lemma str_nat_decimal:
  "str_nat n \<noteq> [] \<and> list_all isdigit (str_nat n) \<and> decimal (str_nat n) = n"
proof (induction n rule: str_nat.induct)
  case (1 n)
  show ?case
  proof (cases "n < 10")
    case True
    with digit_char[of n] show ?thesis
      by (subst (1 2 3) str_nat.simps) (simp add: decimal_def)
  next
    case False
    have "n mod 10 < 10" by simp
    from digit_char[OF this] "1.IH"[OF False] False show ?thesis
      by (subst (1 2 3) str_nat.simps) (simp add: decimal_snoc)
  qed
qed

lemma error_offset_raised: "error_offset (raised (LexError offset remainder)) = Some offset"
proof -
  have "\<not> isdigit CHR '':''" by code_simp
  with str_nat_decimal[of offset]
  have "takeWhile isdigit (str_nat offset @ '': '' @ remainder) = str_nat offset"
    by (simp add: list_all_iff takeWhile_append2)
  with str_nat_decimal[of offset] show ?thesis
    by (simp add: error_offset_def raised_def Let_def)
qed

text \<open>
  Where the rounds fail: at an offset inside the text that holds no whitespace, where no
  literal is a prefix and no pattern matches.
\<close>

lemma skipped_not_space:
  assumes "offset + length (takeWhile isspace (drop offset text)) < length text"
  shows "\<not> isspace (text ! (offset + length (takeWhile isspace (drop offset text))))"
proof -
  let ?k = "length (takeWhile isspace (drop offset text))"
  from assms have "?k < length (drop offset text)" by simp
  from nth_length_takeWhile[OF this] assms show ?thesis
    by (simp add: add.commute)
qed

lemma lex_rounds_failure:
  "lex_rounds b engine fuel token_defs text offset = Some (Inl e) \<Longrightarrow>
     \<exists>off. e = LexError off (drop off text) \<and> off < length text \<and> \<not> isspace (text ! off) \<and>
           spec_first_literal token_defs (drop off text) = None \<and>
           first_pattern b engine token_defs (drop off text) = None"
proof (induction fuel arbitrary: offset)
  case 0
  then show ?case by (simp split: if_splits)
next
  case (Suc fuel)
  define p where "p = offset + length (takeWhile isspace (drop offset text))"
  from Suc.prems have lt: "offset < length text" "p < length text"
    by (auto simp: p_def[symmetric] Let_def split: if_splits)
  from skipped_not_space[of offset "text"] lt have ns: "\<not> isspace (text ! p)"
    by (simp add: p_def)
  show ?case
  proof (cases "case spec_first_literal token_defs (drop p text) of
                  Some m \<Rightarrow> Some m
                | None \<Rightarrow> first_pattern b engine token_defs (drop p text)")
    case None
    then have "spec_first_literal token_defs (drop p text) = None"
      "first_pattern b engine token_defs (drop p text) = None"
      by (auto split: option.splits)
    moreover from None Suc.prems lt have "e = LexError p (drop p text)"
      by (simp add: p_def[symmetric] Let_def)
    ultimately show ?thesis using lt ns by blast
  next
    case (Some m)
    obtain kind matched where m: "m = (kind, matched)" by (cases m)
    from Some m Suc.prems lt
    have "lex_rounds b engine fuel token_defs text (p + length matched) = Some (Inl e)"
      by (simp add: p_def[symmetric] Let_def split: option.splits sum.splits)
    from Suc.IH[OF this] show ?thesis .
  qed
qed

text \<open>
  The loop of the code at a position from which the whitespace skipped leads to \<open>p\<close>,
  inside the text: when no literal is a prefix there and no pattern matches, it raises
  with \<open>p\<close>; when no literal is a prefix and the pattern taken matches the empty text, the
  position stays where it is, and the loop does not return.
\<close>

lemma tokenize_loop_fails:
  assumes wf: "list_all one_of_literal_or_pattern token_defs"
    and pos: "position < length s" and p: "skip_whitespace s position < length s"
    and nl: "spec_first_literal token_defs (drop (skip_whitespace s position) s) = None"
    and np: "first_pattern False engine token_defs (drop (skip_whitespace s position) s) = None"
  shows "tokenize_loop engine (Suc fuel) token_defs s position tokens =
           Some (Inl (raised (LexError (skip_whitespace s position)
                                (drop (skip_whitespace s position) s))))"
proof -
  from nl have "match_literal token_defs s (skip_whitespace s position) = None"
    by (simp add: match_literal_spec)
  moreover from np match_auto_spec[OF wf, of engine s "skip_whitespace s position"]
  have "match_auto engine token_defs s (skip_whitespace s position) = Inr None" by simp
  ultimately show ?thesis using pos p
    by (simp add: Let_def unexpected_token_raised)
qed

lemma skip_whitespace_none: "position < length s \<Longrightarrow> \<not> isspace (s ! position) \<Longrightarrow>
    skip_whitespace s position = position"
  by (simp add: skip_whitespace_def takeWhile_eq_Nil_iff hd_drop_conv_nth)

lemma tokenize_loop_empty_match:
  assumes wf: "list_all one_of_literal_or_pattern token_defs"
    and pos: "position < length s" and ns: "\<not> isspace (s ! position)"
    and nl: "spec_first_literal token_defs (drop position s) = None"
    and em: "first_pattern False engine token_defs (drop position s) = Some (d, [])"
  shows "tokenize_loop engine fuel token_defs s position tokens = None"
proof (induction fuel arbitrary: tokens)
  case 0
  from pos show ?case by simp
next
  case (Suc fuel)
  from nl have "match_literal token_defs s position = None"
    by (simp add: match_literal_spec)
  moreover from em match_auto_spec[OF wf, of engine s position]
  have "match_auto engine token_defs s position = Inr (Some (d, []))" by simp
  ultimately show ?case
    using pos skip_whitespace_none[OF pos ns] Suc.IH by (simp add: Let_def)
qed

text \<open>
  The loop ends: when no literal kind has the empty string as its value and no pattern
  can match the empty text, every round moves the position forward, and a unit of fuel
  for every character is enough.
\<close>

lemma match_literal_Some:
  "match_literal token_defs text position = Some (d, l) \<Longrightarrow> d \<in> set token_defs \<and> def_value d = Some l"
  by (induction token_defs) (auto split: option.splits if_splits)

lemma match_auto_Some:
  "match_auto engine token_defs text position = Inr (Some (d, v)) \<Longrightarrow>
     \<forall>d \<in> set token_defs. \<forall>p s. def_pattern d = Some p \<longrightarrow> re_match engine p s \<noteq> Some [] \<Longrightarrow>
     v \<noteq> []"
  by (induction token_defs) (auto split: option.splits)

lemma tokenize_loop_returns:
  assumes "list_all (\<lambda>d. def_value d \<noteq> Some []) token_defs"
    and ne: "nonempty_matches engine token_defs"
  shows "length text - position \<le> fuel \<Longrightarrow>
           tokenize_loop engine fuel token_defs text position tokens \<noteq> None"
proof (induction fuel arbitrary: position tokens)
  case 0
  then show ?case by simp
next
  case (Suc fuel)
  show ?case
  proof (cases "position < length text")
    case False
    then show ?thesis by simp
  next
    case True
    define p where "p = skip_whitespace text position"
    have pp: "position \<le> p" by (simp add: p_def skip_whitespace_def)
    show ?thesis
    proof (cases "length text \<le> p")
      case True
      with \<open>position < length text\<close> show ?thesis by (simp add: p_def[symmetric] Let_def)
    next
      case False
      show ?thesis
      proof (cases "match_literal token_defs text p")
        case (Some m)
        obtain d l where m: "m = (d, l)" by (cases m)
        from match_literal_Some Some m have "d \<in> set token_defs" "def_value d = Some l"
          by blast+
        with assms(1) have "l \<noteq> []" by (auto simp: list_all_iff)
        with pp Suc.prems False have "length text - (p + length l) \<le> fuel"
          by (cases l) auto
        from Suc.IH[OF this] True False Some m show ?thesis
          by (simp add: p_def[symmetric] Let_def)
      next
        case None
        show ?thesis
        proof (cases "match_auto engine token_defs text p")
          case (Inl e)
          with True False None show ?thesis by (simp add: p_def[symmetric] Let_def)
        next
          case (Inr r)
          show ?thesis
          proof (cases r)
            case None
            with True False \<open>match_literal token_defs text p = None\<close> Inr show ?thesis
              by (simp add: p_def[symmetric] Let_def)
          next
            case (Some m)
            obtain d v where m: "m = (d, v)" by (cases m)
            from Inr Some m have "match_auto engine token_defs text p = Inr (Some (d, v))" by simp
            from match_auto_Some[OF this] ne have "v \<noteq> []" by (simp add: nonempty_matches_def)
            with pp Suc.prems False have "length text - (p + length v) \<le> fuel"
              by (cases v) auto
            from Suc.IH[OF this] True False \<open>match_literal token_defs text p = None\<close> Inr Some m
            show ?thesis
              by (simp add: p_def[symmetric] Let_def)
          qed
        qed
      qed
    qed
  qed
qed

lemma tokenize_returns:
  "list_all (\<lambda>d. def_value d \<noteq> Some []) token_defs \<Longrightarrow> nonempty_matches engine token_defs \<Longrightarrow>
     length (strip text) \<le> fuel \<Longrightarrow> tokenize engine fuel token_defs text \<noteq> None"
  by (simp add: tokenize_def tokenize_loop_returns)

text \<open>
  Claim C5 as stated fails: \<open>tokenize\<close> takes a pattern as soon as it matches, also when
  the match is empty. With one kind whose pattern is \<open>\d*\<close>, on the text \<open>a\<close>, no
  pattern matches a non-empty prefix, and the algorithm of the claim fails with offset
  0; the code takes the empty match, stays at offset 0, and has not returned after 10
  rounds.
\<close>

theorem empty_match_taken:
  "ex_star_defs = [TokenDefinition ''DIGITS'' None (Some (Regex digits_star))] \<and>
   re_match ex_engine (Regex digits_star) ''a'' = Some [] \<and>
   spec_tokenize ex_engine 10 ex_star_defs ''a'' = Some (Inl (LexError 0 ''a'')) \<and>
   tokenize ex_engine 10 ex_star_defs ''a'' = None"
  by code_simp

text \<open>
  Claim C5, as the code has it. When every kind has exactly one of a literal and a
  pattern:

  \<^item> \<open>tokenize\<close> is the algorithm of the specification with a pattern kind taken as soon
    as its pattern matches, also by an empty match (\<^const>\<open>any_match_tokenize\<close>): trim;
    repeat --- skip whitespace, take the first literal kind in the order of the lexer's
    list whose value is a prefix at the position, else the first pattern kind in that
    order whose pattern matches, else fail with the offset and the remainder, which the
    code raises as a \<open>ValueError\<close> with the message
    \<open>Unexpected token at position <offset>: <remainder>\<close>;
  \<^item> when no pattern of the list can match the empty text, as is the case for the
    patterns of \<open>add_auto_token\<close>, this is the algorithm exactly as the specification
    states it (\<^const>\<open>spec_tokenize\<close>), where a pattern wins by a non-empty match;
  \<^item> an error of \<open>tokenize\<close> carries an offset inside the trimmed text at which there is
    no whitespace, no literal is a prefix and no pattern matches, and the remainder from
    there;
  \<^item> the loop, at a position inside the text \<open>s\<close> from which the whitespace skipped ends
    inside \<open>s\<close> where no literal is a prefix and no pattern matches, raises the error with
    that offset; in particular a text whose trimming starts no literal and no pattern
    match fails with offset 0;
  \<^item> the loop, at a position without whitespace where no literal is a prefix and the
    pattern taken matches the empty text, does not return, whatever the fuel;
  \<^item> when no literal value is empty and no pattern can match the empty text, \<open>tokenize\<close>
    returns within as many rounds as the trimmed text has characters.
\<close>

theorem tokenize_algorithm:
  assumes wf: "list_all one_of_literal_or_pattern token_defs"
  shows "tokenize engine fuel token_defs input_text =
           map_option (map_sum raised id) (any_match_tokenize engine fuel token_defs input_text) \<and>
         (nonempty_matches engine token_defs \<longrightarrow>
            any_match_tokenize engine fuel token_defs input_text =
              spec_tokenize engine fuel token_defs input_text) \<and>
         (tokenize engine fuel token_defs input_text = Some (Inl e) \<longrightarrow>
            (\<exists>offset.
               e = ValueError (''Unexpected token at position '' @ str_nat offset @ '': '' @
                                 drop offset (strip input_text)) \<and>
               error_offset e = Some offset \<and>
               offset < length (strip input_text) \<and>
               \<not> isspace (strip input_text ! offset) \<and>
               spec_first_literal token_defs (drop offset (strip input_text)) = None \<and>
               first_pattern False engine token_defs (drop offset (strip input_text)) = None)) \<and>
         (position < length s \<longrightarrow> skip_whitespace s position < length s \<longrightarrow>
          spec_first_literal token_defs (drop (skip_whitespace s position) s) = None \<longrightarrow>
          first_pattern False engine token_defs (drop (skip_whitespace s position) s) = None \<longrightarrow>
            tokenize_loop engine (Suc fuel) token_defs s position tokens =
              Some (Inl (ValueError (''Unexpected token at position '' @
                                       str_nat (skip_whitespace s position) @ '': '' @
                                       drop (skip_whitespace s position) s))) \<and>
            error_offset (ValueError (''Unexpected token at position '' @
                                       str_nat (skip_whitespace s position) @ '': '' @
                                       drop (skip_whitespace s position) s)) =
              Some (skip_whitespace s position)) \<and>
         (strip input_text \<noteq> [] \<longrightarrow>
          spec_first_literal token_defs (strip input_text) = None \<longrightarrow>
          first_pattern False engine token_defs (strip input_text) = None \<longrightarrow>
            tokenize engine (Suc fuel) token_defs input_text =
              Some (Inl (ValueError (''Unexpected token at position 0: '' @ strip input_text)))) \<and>
         (position < length s \<longrightarrow> \<not> isspace (s ! position) \<longrightarrow>
          spec_first_literal token_defs (drop position s) = None \<longrightarrow>
          first_pattern False engine token_defs (drop position s) = Some (d, []) \<longrightarrow>
            tokenize_loop engine fuel token_defs s position tokens = None) \<and>
         (list_all (\<lambda>d. def_value d \<noteq> Some []) token_defs \<longrightarrow>
          nonempty_matches engine token_defs \<longrightarrow> length (strip input_text) \<le> fuel \<longrightarrow>
            tokenize engine fuel token_defs input_text \<noteq> None)"
proof -
  have A: "tokenize engine fuel token_defs input_text =
           map_option (map_sum raised id) (any_match_tokenize engine fuel token_defs input_text)"
    by (simp add: tokenize_def any_match_tokenize_def tokenize_loop_spec[OF wf]
          split: option.splits sum.splits)
  have B: "any_match_tokenize engine fuel token_defs input_text =
              spec_tokenize engine fuel token_defs input_text"
    if "nonempty_matches engine token_defs"
    by (simp add: any_match_tokenize_def spec_tokenize_def lex_rounds_nonempty[OF that])
  have C: "\<exists>offset.
               e = ValueError (''Unexpected token at position '' @ str_nat offset @ '': '' @
                                 drop offset (strip input_text)) \<and>
               error_offset e = Some offset \<and>
               offset < length (strip input_text) \<and>
               \<not> isspace (strip input_text ! offset) \<and>
               spec_first_literal token_defs (drop offset (strip input_text)) = None \<and>
               first_pattern False engine token_defs (drop offset (strip input_text)) = None"
    if "tokenize engine fuel token_defs input_text = Some (Inl e)"
  proof -
    from that A obtain z where
      z: "lex_rounds False engine fuel token_defs (strip input_text) 0 = Some z"
        "map_sum raised id z = Inl e"
      by (auto simp: any_match_tokenize_def)
    then obtain e' where
      e': "lex_rounds False engine fuel token_defs (strip input_text) 0 = Some (Inl e')"
      and e: "e = raised e'"
      by (cases z) auto
    from lex_rounds_failure[OF e'] obtain off where
      off: "e' = LexError off (drop off (strip input_text))" "off < length (strip input_text)"
        "\<not> isspace (strip input_text ! off)"
        "spec_first_literal token_defs (drop off (strip input_text)) = None"
        "first_pattern False engine token_defs (drop off (strip input_text)) = None"
      by blast
    from e off(1) have "e = ValueError (''Unexpected token at position '' @ str_nat off @ '': '' @
                                 drop off (strip input_text))"
      by (simp add: raised_def)
    moreover from e off(1) have "error_offset e = Some off"
      by (simp add: error_offset_raised)
    ultimately show ?thesis using off(2-5) by blast
  qed
  have raised_msg: "raised (LexError k r) =
      ValueError (''Unexpected token at position '' @ str_nat k @ '': '' @ r)" for k r
    by (simp add: raised_def)
  have D: "tokenize_loop engine (Suc fuel) token_defs s position tokens =
              Some (Inl (ValueError (''Unexpected token at position '' @
                                       str_nat (skip_whitespace s position) @ '': '' @
                                       drop (skip_whitespace s position) s))) \<and>
            error_offset (ValueError (''Unexpected token at position '' @
                                       str_nat (skip_whitespace s position) @ '': '' @
                                       drop (skip_whitespace s position) s)) =
              Some (skip_whitespace s position)"
    if "position < length s" "skip_whitespace s position < length s"
      "spec_first_literal token_defs (drop (skip_whitespace s position) s) = None"
      "first_pattern False engine token_defs (drop (skip_whitespace s position) s) = None"
    using tokenize_loop_fails[OF wf that]
      error_offset_raised[of "skip_whitespace s position" "drop (skip_whitespace s position) s"]
    by (simp only: raised_msg simp_thms)
  have E: "tokenize engine (Suc fuel) token_defs input_text =
              Some (Inl (ValueError (''Unexpected token at position 0: '' @ strip input_text)))"
    if ne: "strip input_text \<noteq> []"
      and nl: "spec_first_literal token_defs (strip input_text) = None"
      and np: "first_pattern False engine token_defs (strip input_text) = None"
  proof -
    have z: "str_nat 0 = ''0''" by code_simp
    from ne have pos: "0 < length (strip input_text)" by simp
    from skip_whitespace_stripped[OF ne]
    have sk: "skip_whitespace (strip input_text) 0 = 0" .
    from tokenize_loop_fails[OF wf pos, of engine fuel "[]"] sk nl np pos z show ?thesis
      by (simp add: tokenize_def raised_def)
  qed
  have G: "tokenize_loop engine fuel token_defs s position tokens = None"
    if "position < length s" "\<not> isspace (s ! position)"
      "spec_first_literal token_defs (drop position s) = None"
      "first_pattern False engine token_defs (drop position s) = Some (d, [])"
    using tokenize_loop_empty_match[OF wf that] .
  have H: "tokenize engine fuel token_defs input_text \<noteq> None"
    if "list_all (\<lambda>d. def_value d \<noteq> Some []) token_defs" "nonempty_matches engine token_defs"
      "length (strip input_text) \<le> fuel"
    using tokenize_returns[OF that] .
  from A B C D E G H show ?thesis by blast
qed

theorem tokenize_algorithm_witness:
  "list_all one_of_literal_or_pattern main_token_defs \<and>
   tokenize ex_engine 20 main_token_defs ''3 + 4 5'' = Some (Inr ex_tokens_3_plus_4_5) \<and>
   spec_tokenize ex_engine 20 main_token_defs ''3 + 4 5'' = Some (Inr ex_tokens_3_plus_4_5) \<and>
   spec_tokenize ex_engine 20 main_token_defs ''3 + ?5'' = Some (Inl (LexError 4 ''?5'')) \<and>
   tokenize ex_engine 20 main_token_defs ''3 + ?5'' =
     Some (Inl (ValueError ''Unexpected token at position 4: ?5'')) \<and>
   error_offset (ValueError ''Unexpected token at position 4: ?5'') = Some 4 \<and>
   strip '' ?3'' = ''?3'' \<and>
   spec_first_literal main_token_defs ''?3'' = None \<and>
   first_pattern False ex_engine main_token_defs ''?3'' = None \<and>
   tokenize ex_engine (Suc 0) main_token_defs '' ?3'' =
     Some (Inl (ValueError ''Unexpected token at position 0: ?3'')) \<and>
   list_all one_of_literal_or_pattern ex_star_defs \<and>
   spec_first_literal ex_star_defs ''a'' = None \<and>
   first_pattern False ex_engine ex_star_defs ''a'' =
     Some (TokenDefinition ''DIGITS'' None (Some (Regex digits_star)), []) \<and>
   tokenize_loop ex_engine 1000 ex_star_defs ''a'' 0 [] = None \<and>
   tokenize ex_engine 7 main_token_defs ''3 + 4 5'' \<noteq> None"
proof -
  have a: "list_all one_of_literal_or_pattern main_token_defs" by code_simp
  have np: "re_match ex_engine NUMBER_pattern s \<noteq> Some []"
    "re_match ex_engine STRING_pattern s \<noteq> Some []" for s
    using auto_patterns_nonempty[of ex_engine _ s "[]"] by blast+
  have ne: "nonempty_matches ex_engine main_token_defs"
    by (simp add: nonempty_matches_def main_token_defs_def tk_PLUS_def tk_MINUS_def
          tk_MULTIPLY_def tk_DIVIDE_def tk_LPAREN_def tk_RPAREN_def tk_NUMBER_def tk_STRING_def
          tk_PRINT_def np del: re_match.simps)
  have nl: "list_all (\<lambda>d. def_value d \<noteq> Some []) main_token_defs" by code_simp
  have b: "spec_tokenize ex_engine 20 main_token_defs ''3 + 4 5'' = Some (Inr ex_tokens_3_plus_4_5)"
    by code_simp
  have c: "spec_tokenize ex_engine 20 main_token_defs ''3 + ?5'' = Some (Inl (LexError 4 ''?5''))"
    by code_simp
  have r: "raised (LexError 4 ''?5'') = ValueError ''Unexpected token at position 4: ?5''"
    by code_simp
  have d: "strip '' ?3'' = ''?3''" "spec_first_literal main_token_defs ''?3'' = None"
    "first_pattern False ex_engine main_token_defs ''?3'' = None"
    by code_simp+
  have l: "length (strip ''3 + 4 5'') \<le> (7::nat)" by code_simp
  have f: "list_all one_of_literal_or_pattern ex_star_defs"
    "spec_first_literal ex_star_defs ''a'' = None"
    "first_pattern False ex_engine ex_star_defs ''a'' =
       Some (TokenDefinition ''DIGITS'' None (Some (Regex digits_star)), [])"
    "\<not> isspace (''a'' ! 0)"
    by code_simp+
  note t = tokenize_algorithm[OF a, where engine = ex_engine]
  from t[where fuel = 20 and input_text = "''3 + 4 5''"] ne b
  have t1: "tokenize ex_engine 20 main_token_defs ''3 + 4 5'' = Some (Inr ex_tokens_3_plus_4_5)"
    by simp
  from t[where fuel = 20 and input_text = "''3 + ?5''"] ne c r
  have t2: "tokenize ex_engine 20 main_token_defs ''3 + ?5'' =
              Some (Inl (ValueError ''Unexpected token at position 4: ?5''))"
    by simp
  from t[where fuel = 20 and input_text = "''3 + ?5''"
      and e = "ValueError ''Unexpected token at position 4: ?5''"] t2
  obtain offset where
    "ValueError ''Unexpected token at position 4: ?5'' =
       ValueError (''Unexpected token at position '' @ str_nat offset @ '': '' @
                     drop offset (strip ''3 + ?5''))"
    "error_offset (ValueError ''Unexpected token at position 4: ?5'') = Some offset"
    by blast
  moreover have "error_offset (ValueError ''Unexpected token at position 4: ?5'') = Some 4"
    by code_simp
  ultimately have t3: "error_offset (ValueError ''Unexpected token at position 4: ?5'') = Some 4"
    by simp
  from t[where fuel = 0 and input_text = "'' ?3''"] d
  have t4: "tokenize ex_engine (Suc 0) main_token_defs '' ?3'' =
              Some (Inl (ValueError ''Unexpected token at position 0: ?3''))"
    by simp
  from tokenize_algorithm[OF f(1), where engine = ex_engine and s = "''a''" and position = 0
      and fuel = 1000 and tokens = "[]"
      and d = "TokenDefinition ''DIGITS'' None (Some (Regex digits_star))"] f
  have t5: "tokenize_loop ex_engine 1000 ex_star_defs ''a'' 0 [] = None"
    by simp
  from t[where fuel = 7 and input_text = "''3 + 4 5''"] ne nl l
  have t6: "tokenize ex_engine 7 main_token_defs ''3 + 4 5'' \<noteq> None"
    by blast
  from a b c d f t1 t2 t3 t4 t5 t6 show ?thesis by simp
qed

text \<open>
  Claim C6 as stated fails: with the literal kinds \<open>PRINT = "print"\<close> and
  \<open>PRINTN = "printn"\<close> in this order, the text \<open>printn\<close> starts with the first literal;
  \<open>tokenize\<close> takes a \<open>PRINT\<close> token and fails on the remaining \<open>n\<close>.
\<close>

theorem literal_shadowed_by_prefix:
  "TokenDefinition ''PRINTN'' (Some ''printn'') None \<in> set ex_print_defs \<and>
   tokenize ex_engine 10 ex_print_defs ''printn'' = Some (Inl (ValueError ''Unexpected token at position 5: n''))"
  by code_simp

text \<open>A text that neither starts nor ends with whitespace is its own trimming.\<close>

lemma strip_id:
  assumes "v \<noteq> []" "\<not> isspace (hd v)" "\<not> isspace (last v)"
  shows "strip v = v"
proof -
  from assms(1,2) have "dropWhile isspace v = v" by (cases v) auto
  moreover from assms(1,3) have "dropWhile isspace (rev v) = rev v"
    by (cases "rev v") (auto simp: last_rev[symmetric] simp del: last_rev)
  ultimately show ?thesis by (simp add: strip_def)
qed

lemma match_literal_first:
  assumes "list_all (\<lambda>d'. case def_value d' of None \<Rightarrow> True | Some l \<Rightarrow> \<not> prefix l s) before"
    and "def_value d = Some v" and "prefix v s"
  shows "match_literal (before @ d # after) s 0 = Some (d, v)"
  using assms by (induction before) (auto simp: startswith_prefix split: option.splits)

lemma tokenize_loop_done:
  "\<not> position < length text \<Longrightarrow> tokenize_loop engine fuel token_defs text position tokens = Some (Inr tokens)"
  by (cases fuel) simp_all

text \<open>
  Claim C6, as the code has it. For a literal kind of the lexer's list whose value is not
  empty, neither starts nor ends with whitespace, and has no literal value of an earlier
  kind of the list as a prefix: \<open>tokenize\<close> on a text equal to the value yields exactly one
  token, of that kind, with that text, at offset 0.
\<close>

theorem literal_alone:
  "token_defs = before @ d # after \<longrightarrow> def_value d = Some v \<longrightarrow>
   v \<noteq> [] \<longrightarrow> \<not> isspace (hd v) \<longrightarrow> \<not> isspace (last v) \<longrightarrow>
   list_all (\<lambda>d'. case def_value d' of None \<Rightarrow> True | Some l \<Rightarrow> \<not> prefix l v) before \<longrightarrow>
     tokenize engine (Suc fuel) token_defs v = Some (Inr [Token d v 0])"
proof (intro impI)
  assume defs: "token_defs = before @ d # after" and dv: "def_value d = Some v"
    and ne: "v \<noteq> []" and h: "\<not> isspace (hd v)" and l: "\<not> isspace (last v)"
    and first: "list_all (\<lambda>d'. case def_value d' of None \<Rightarrow> True | Some l \<Rightarrow> \<not> prefix l v) before"
  have s: "strip v = v" using ne h l by (rule strip_id)
  from ne h have sk: "skip_whitespace v 0 = 0"
    by (cases v) (simp_all add: skip_whitespace_def)
  from match_literal_first[where before = before and s = v and d = d and v = v
      and after = after] first dv defs
  have ml: "match_literal token_defs v 0 = Some (d, v)" by simp
  from ne s sk ml show "tokenize engine (Suc fuel) token_defs v = Some (Inr [Token d v 0])"
    by (simp add: tokenize_def tokenize_loop_done)
qed

theorem literal_alone_witness:
  "main_token_defs =
     [tk_PLUS, tk_MINUS, tk_MULTIPLY, tk_DIVIDE, tk_LPAREN, tk_RPAREN, tk_NUMBER, tk_STRING] @ tk_PRINT # [] \<and>
   def_value tk_PRINT = Some ''print'' \<and>
   ''print'' \<noteq> [] \<and> \<not> isspace (hd ''print'') \<and> \<not> isspace (last ''print'') \<and>
   list_all (\<lambda>d'. case def_value d' of None \<Rightarrow> True | Some l \<Rightarrow> \<not> prefix l ''print'')
     [tk_PLUS, tk_MINUS, tk_MULTIPLY, tk_DIVIDE, tk_LPAREN, tk_RPAREN, tk_NUMBER, tk_STRING] \<and>
   tokenize ex_engine (Suc 0) main_token_defs ''print'' = Some (Inr [Token tk_PRINT ''print'' 0])"
proof -
  have a: "main_token_defs =
     [tk_PLUS, tk_MINUS, tk_MULTIPLY, tk_DIVIDE, tk_LPAREN, tk_RPAREN, tk_NUMBER, tk_STRING] @ tk_PRINT # []"
    by (simp add: main_token_defs_def)
  have b: "def_value tk_PRINT = Some ''print''" by (simp add: tk_PRINT_def)
  have c: "\<not> isspace (hd ''print'')" "\<not> isspace (last ''print'')" by code_simp+
  have d: "list_all (\<lambda>d'. case def_value d' of None \<Rightarrow> True | Some l \<Rightarrow> \<not> prefix l ''print'')
     [tk_PLUS, tk_MINUS, tk_MULTIPLY, tk_DIVIDE, tk_LPAREN, tk_RPAREN, tk_NUMBER, tk_STRING]"
    by (simp add: tk_PLUS_def tk_MINUS_def tk_MULTIPLY_def tk_DIVIDE_def tk_LPAREN_def tk_RPAREN_def
          tk_NUMBER_def tk_STRING_def)
  from literal_alone[where token_defs = main_token_defs and d = tk_PRINT and after = "[]"
      and v = "''print''" and fuel = 0 and engine = ex_engine
      and before = "[tk_PLUS, tk_MINUS, tk_MULTIPLY, tk_DIVIDE, tk_LPAREN, tk_RPAREN, tk_NUMBER, tk_STRING]"] a b c d
  show ?thesis by simp
qed

end
